theory Spec2Isabelle
  imports Main "HOL-Library.Word"
begin

section \<open>The address-translation layer of pa3.c\<close>

text \<open>
  The file \<^verbatim>\<open>pa3.c\<close> implements a translation cache (\<^verbatim>\<open>lookup_tlb\<close>,
  \<^verbatim>\<open>insert_tlb\<close>), page allocation on a two-level page table (\<^verbatim>\<open>alloc_page\<close>,
  \<^verbatim>\<open>free_page\<close>), the page-fault handler (\<^verbatim>\<open>handle_page_fault\<close>) and the
  context switch with copy-on-write fork (\<^verbatim>\<open>switch_process\<close>).  Each function
  is embedded below as a HOL function on an explicit machine state.

  Behaviour that C leaves undefined is a value of type \<open>fault\<close>: an array
  access outside its bounds, a dereferenced null pointer, the read of a
  local variable that was never assigned, an access through a pointer
  whose value is whatever an uninitialised block happened to hold, and a
  division by zero.
\<close>

datatype fault =
  Out_Of_Bounds | Null_Dereference | Uninitialised_Read | Wild_Pointer | Division_By_Zero

subsection \<open>Constants of the missing headers\<close>

text \<open>
  The macros \<^verbatim>\<open>PTES_PER_PAGE_SHIFT\<close>, \<^verbatim>\<open>NR_PTES_PER_PAGE\<close>, \<^verbatim>\<open>NR_PAGEFRAMES\<close>,
  \<^verbatim>\<open>NR_TLB_ENTRIES\<close>, \<^verbatim>\<open>RW_READ\<close> and \<^verbatim>\<open>RW_WRITE\<close> come from \<^verbatim>\<open>vm.h\<close>, which
  is not part of the sources.  They are parameters of every definition, and
  nothing is assumed about their values or about how they depend on each
  other.  Where a statement
  depends on \<^verbatim>\<open>RW_READ\<close> and \<^verbatim>\<open>RW_WRITE\<close> being different, it says so.
\<close>

record config =
  PTES_PER_PAGE_SHIFT :: nat
  NR_PTES_PER_PAGE :: nat
  NR_PAGEFRAMES :: nat
  NR_TLB_ENTRIES :: nat
  RW_READ :: nat
  RW_WRITE :: nat

text \<open>
  The cache is declared as \<^verbatim>\<open>tlb[1UL << (PTES_PER_PAGE_SHIFT * 2)]\<close>: this is
  the number of its slots.  The loops over the cache run to
  \<^verbatim>\<open>NR_TLB_ENTRIES\<close>; every statement below about one of these loops has
  the hypothesis that \<^verbatim>\<open>NR_TLB_ENTRIES\<close> is at most the length of the array.
\<close>

definition tlb_size :: "config \<Rightarrow> nat" where
  "tlb_size cfg = 2 ^ (PTES_PER_PAGE_SHIFT cfg * 2)"

subsection \<open>Data\<close>

text \<open>
  \<^verbatim>\<open>struct tlb_entry { bool valid; unsigned int vpn; unsigned int pfn; }\<close> and
  \<^verbatim>\<open>struct pte { bool valid; bool writable; unsigned int pfn; unsigned int private; }\<close>,
  as the initialisers \<^verbatim>\<open>{true, vpn, pfn}\<close> and \<^verbatim>\<open>{true, isWrite, pfn, wasWrite}\<close>
  of the source order their fields.  A virtual page number is an
  \<^verbatim>\<open>unsigned int\<close> that the code divides and converts to \<^verbatim>\<open>int\<close>, so it is a
  32-bit word.  The counters in \<^verbatim>\<open>mapcounts\<close> are incremented and
  decremented, so they are 32-bit words too and wrap around as
  \<^verbatim>\<open>unsigned int\<close> does.  Frame numbers, access modes and process ids are
  \<^verbatim>\<open>unsigned int\<close> values that the code only compares, stores and uses as
  indices; they are natural numbers.
\<close>

record tlb_entry =
  valid :: bool
  vpn :: "32 word"
  pfn :: nat

record pte =
  valid :: bool
  writable :: bool
  pfn :: nat
  "private" :: nat

text \<open>
  A \<^verbatim>\<open>struct pte_directory\<close> is an array of \<^verbatim>\<open>NR_PTES_PER_PAGE\<close> entries, a
  \<^verbatim>\<open>struct pagetable\<close> an array \<^verbatim>\<open>outer_ptes\<close> of \<^verbatim>\<open>NR_PTES_PER_PAGE\<close> pointers
  to directories.  A directory is allocated for exactly one slot of one page
  table and its pointer is never copied, so the slot owns it: \<open>Null\<close> is the
  null pointer and \<open>Ptr d\<close> the directory pointed to.  \<open>Wild\<close> is a non-null
  bit pattern that no assignment of the program put there.
\<close>

type_synonym pte_directory = "pte list"

datatype dir_ptr = Null | Ptr pte_directory | Wild

type_synonym pagetable = "dir_ptr list"

record process =
  pid :: nat
  pagetable :: pagetable

text \<open>
  The state holds the globals of the source.  Process objects live in the
  store \<open>procs\<close> and are addressed by their position in it; \<open>current\<close>, the
  elements of the ready queue \<open>processes\<close> and \<open>ptbr\<close> are such addresses
  (\<open>ptbr\<close> points to the \<^verbatim>\<open>pagetable\<close> field of the process it names).
  \<open>index\<close> is the \<^verbatim>\<open>static int index\<close> of \<^verbatim>\<open>insert_tlb\<close>.
\<close>

record state =
  procs :: "process list"
  current :: nat
  processes :: "nat list"
  ptbr :: nat
  tlb :: "tlb_entry list"
  index :: nat
  mapcounts :: "32 word list"

subsection \<open>What malloc returns\<close>

text \<open>
  The code never initialises a block that \<^verbatim>\<open>malloc\<close> returns: it tests
  \<^verbatim>\<open>ptbr->outer_ptes[i]\<close> of a new process and reads \<^verbatim>\<open>ptes[j]\<close> of a new
  directory as it finds them.  What a fresh block holds is therefore an
  input of the program.  A directory is allocated at most once for each slot
  of each process, and a process block once for each process, so the
  contents are indexed by these: \<open>directory_block al a i j\<close> is entry \<open>j\<close>
  of the block allocated for slot \<open>i\<close> of the process at address \<open>a\<close>, and
  \<open>process_block al a i\<close> tells whether \<^verbatim>\<open>outer_ptes[i]\<close> of the block
  allocated for the process at address \<open>a\<close> is non-null.
\<close>

record allocator =
  directory_block :: "nat \<Rightarrow> nat \<Rightarrow> nat \<Rightarrow> pte"
  process_block :: "nat \<Rightarrow> nat \<Rightarrow> bool"

definition fresh_directory :: "config \<Rightarrow> allocator \<Rightarrow> nat \<Rightarrow> nat \<Rightarrow> pte_directory" where
  "fresh_directory cfg al a i = map (directory_block al a i) [0..<NR_PTES_PER_PAGE cfg]"

definition fresh_table :: "config \<Rightarrow> allocator \<Rightarrow> nat \<Rightarrow> pagetable" where
  "fresh_table cfg al a =
     map (\<lambda>i. if process_block al a i then Wild else Null) [0..<NR_PTES_PER_PAGE cfg]"

text \<open>
  The all-zero values: what the zero-initialised objects of the program
  hold at startup, and what a zero-filled block would hold.
\<close>

definition zero_pte :: pte where
  "zero_pte = \<lparr>pte.valid = False, writable = False, pfn = 0, private = 0\<rparr>"

definition zero_directory :: "config \<Rightarrow> pte_directory" where
  "zero_directory cfg = replicate (NR_PTES_PER_PAGE cfg) zero_pte"

definition zero_pagetable :: "config \<Rightarrow> pagetable" where
  "zero_pagetable cfg = replicate (NR_PTES_PER_PAGE cfg) Null"

definition zero_tlb_entry :: tlb_entry where
  "zero_tlb_entry = \<lparr>tlb_entry.valid = False, vpn = 0, pfn = 0\<rparr>"

text \<open>An allocator whose blocks are all zero, as \<^verbatim>\<open>calloc\<close> would return them.\<close>

definition zero_filled :: "allocator \<Rightarrow> bool" where
  "zero_filled al \<longleftrightarrow>
     (\<forall>a i j. directory_block al a i j = zero_pte) \<and> (\<forall>a i. \<not> process_block al a i)"

definition zeroed :: allocator where
  "zeroed = \<lparr>directory_block = (\<lambda>a i j. zero_pte), process_block = (\<lambda>a i. False)\<rparr>"

text \<open>
  Modelled from the spec: the start-up code of the framework is not part of
  the sources.  The spec has exactly one current process outside the ready
  queue, the page-table base pointing at its table, and current process and
  base pointer initialised once at startup; the first process and the
  global arrays are zero-initialised C objects.
\<close>

definition init_state :: "config \<Rightarrow> state" where
  "init_state cfg =
     \<lparr>procs = [\<lparr>pid = 0, pagetable = zero_pagetable cfg\<rparr>],
      current = 0,
      processes = [],
      ptbr = 0,
      tlb = replicate (tlb_size cfg) zero_tlb_entry,
      index = 0,
      mapcounts = replicate (NR_PAGEFRAMES cfg) 0\<rparr>"

subsection \<open>lookup_tlb and insert_tlb\<close>

text \<open>
  \<^verbatim>\<open>lookup_tlb\<close> scans the slots \<^verbatim>\<open>0 .. NR_TLB_ENTRIES - 1\<close> in order, skips
  the invalid ones and returns at the first valid slot that holds \<^verbatim>\<open>vpn\<close>.
  \<open>Some pfn\<close> is the result \<^verbatim>\<open>true\<close> with \<^verbatim>\<open>*pfn\<close> set, \<open>None\<close> is \<^verbatim>\<open>false\<close>.
\<close>

fun lookup_loop :: "tlb_entry list \<Rightarrow> 32 word \<Rightarrow> nat list \<Rightarrow> nat option" where
  "lookup_loop t v [] = None"
| "lookup_loop t v (i # is) =
     (if tlb_entry.valid (t ! i) = False then lookup_loop t v is
      else if vpn (t ! i) = v then Some (tlb_entry.pfn (t ! i))
      else lookup_loop t v is)"

definition lookup_tlb :: "config \<Rightarrow> state \<Rightarrow> 32 word \<Rightarrow> nat option" where
  "lookup_tlb cfg s v = lookup_loop (tlb s) v [0..<NR_TLB_ENTRIES cfg]"

text \<open>
  \<^verbatim>\<open>insert_tlb\<close> stores the entry at \<^verbatim>\<open>tlb[index]\<close> and increments \<^verbatim>\<open>index\<close>.
  There is no search for an existing entry and no reduction of the index; a
  store at or beyond the declared size of the array is outside the array.
\<close>

definition insert_tlb :: "config \<Rightarrow> state \<Rightarrow> 32 word \<Rightarrow> nat \<Rightarrow> fault + state" where
  "insert_tlb cfg s v f =
     (let t = \<lparr>tlb_entry.valid = True, vpn = v, pfn = f\<rparr>
      in if index s < tlb_size cfg
         then Inr (s\<lparr>tlb := (tlb s)[index s := t], index := index s + 1\<rparr>)
         else Inl Out_Of_Bounds)"

subsection \<open>The directory index\<close>

text \<open>
  \<^verbatim>\<open>int pd_index = vpn / NR_PTES_PER_PAGE\<close> divides as \<^verbatim>\<open>unsigned int\<close> and
  converts the quotient to \<^verbatim>\<open>int\<close>: a quotient of \<^verbatim>\<open>2^31\<close> or more becomes
  negative.  The index is then compared with \<^verbatim>\<open>NR_PTES_PER_PAGE\<close> as an
  \<^verbatim>\<open>int\<close>, so that a negative index is below it.
  \<^verbatim>\<open>int pte_index = vpn % NR_PTES_PER_PAGE\<close> is less than the divisor.  Each
  function that computes the two indices faults when the divisor is 0.
\<close>

definition to_int :: "nat \<Rightarrow> int" where
  "to_int q = (if int q < 2 ^ 31 then int q else int q - 2 ^ 32)"

definition pd_index_of :: "config \<Rightarrow> 32 word \<Rightarrow> int" where
  "pd_index_of cfg v = to_int (unat v div NR_PTES_PER_PAGE cfg)"

definition pte_index_of :: "config \<Rightarrow> 32 word \<Rightarrow> nat" where
  "pte_index_of cfg v = unat v mod NR_PTES_PER_PAGE cfg"

subsection \<open>alloc_page\<close>

text \<open>
  The search loop of \<^verbatim>\<open>alloc_page\<close>: the first \<^verbatim>\<open>i\<close> with \<^verbatim>\<open>mapcounts[i]==0\<close>.
  \<open>None\<close> means the loop ended without assigning \<^verbatim>\<open>pfn\<close>.
\<close>

fun find_free :: "32 word list \<Rightarrow> nat list \<Rightarrow> nat option" where
  "find_free mc [] = None"
| "find_free mc (i # is) = (if mc ! i = 0 then Some i else find_free mc is)"

text \<open>The value of \<^verbatim>\<open>(unsigned int) -1\<close>.\<close>

definition minus_one :: nat where
  "minus_one = 2 ^ 32 - 1"

text \<open>
  The current page table is reached through \<^verbatim>\<open>ptbr\<close>; a page table is
  written back into the process that holds it.
\<close>

definition ptbr_table :: "state \<Rightarrow> pagetable" where
  "ptbr_table s = pagetable (procs s ! ptbr s)"

definition set_ptbr_table :: "state \<Rightarrow> pagetable \<Rightarrow> state" where
  "set_ptbr_table s pt =
     s\<lparr>procs := (procs s)[ptbr s := (procs s ! ptbr s)\<lparr>pagetable := pt\<rparr>]\<rparr>"

text \<open>
  \<^verbatim>\<open>alloc_page\<close> returns \<^verbatim>\<open>-1\<close> when the directory index is not below
  \<^verbatim>\<open>NR_PTES_PER_PAGE\<close>, before it uses \<^verbatim>\<open>pfn\<close>; a negative index passes this
  test.  Otherwise it builds the entry from \<^verbatim>\<open>pfn\<close> (undefined when the loop
  found no free frame), increments the counter, and stores the entry in the
  directory of the slot, which is a block fresh from \<^verbatim>\<open>malloc\<close> when the slot
  is null.  The result is the new state and the returned number.
\<close>

definition alloc_page ::
    "config \<Rightarrow> allocator \<Rightarrow> state \<Rightarrow> 32 word \<Rightarrow> nat \<Rightarrow> fault + (state \<times> nat)" where
  "alloc_page cfg al s v rw =
     (let found = find_free (mapcounts s) [0..<NR_PAGEFRAMES cfg];
          pd_index = pd_index_of cfg v;
          pte_index = pte_index_of cfg v
      in if NR_PTES_PER_PAGE cfg = 0 then Inl Division_By_Zero
         else if pd_index \<ge> int (NR_PTES_PER_PAGE cfg) then Inr (s, minus_one)
         else case found of
           None \<Rightarrow> Inl Uninitialised_Read
         | Some f \<Rightarrow>
             (let isWrite = (if rw = RW_READ cfg then False else True);
                  wasWrite = isWrite;
                  p = \<lparr>pte.valid = True, writable = isWrite, pfn = f,
                       private = (if wasWrite then 1 else 0)\<rparr>;
                  s1 = s\<lparr>mapcounts := (mapcounts s)[f := mapcounts s ! f + 1]\<rparr>;
                  pt = ptbr_table s1
              in if pd_index < 0 then Inl Out_Of_Bounds
                 else case pt ! nat pd_index of
                   Wild \<Rightarrow> Inl Wild_Pointer
                 | Null \<Rightarrow>
                     Inr (set_ptbr_table s1
                            (pt[nat pd_index :=
                                  Ptr ((fresh_directory cfg al (ptbr s1) (nat pd_index))
                                         [pte_index := p])]), f)
                 | Ptr pd \<Rightarrow>
                     Inr (set_ptbr_table s1 (pt[nat pd_index := Ptr (pd[pte_index := p])]), f)))"

subsection \<open>free_page\<close>

text \<open>
  The first loop of \<^verbatim>\<open>free_page\<close> clears the valid bit of the first valid
  slot that holds \<^verbatim>\<open>vpn\<close> and stops there.
\<close>

fun invalidate_loop :: "tlb_entry list \<Rightarrow> 32 word \<Rightarrow> nat list \<Rightarrow> tlb_entry list" where
  "invalidate_loop t v [] = t"
| "invalidate_loop t v (i # is) =
     (if tlb_entry.valid (t ! i) = True \<and> vpn (t ! i) = v
      then t[i := (t ! i)\<lparr>tlb_entry.valid := False\<rparr>]
      else invalidate_loop t v is)"

text \<open>
  \<^verbatim>\<open>free_page\<close> does not check the directory index and does not test the
  directory pointer.  It decrements the counter of the frame number found in
  the entry and then assigns \<^verbatim>\<open>valid\<close>, \<^verbatim>\<open>writable\<close> and \<^verbatim>\<open>pfn\<close>; the local
  \<^verbatim>\<open>struct pte p = {false,false,0,0}\<close> is never used, and \<^verbatim>\<open>private\<close> is not
  assigned.
\<close>

definition free_page :: "config \<Rightarrow> state \<Rightarrow> 32 word \<Rightarrow> fault + state" where
  "free_page cfg s v =
     (let s1 = s\<lparr>tlb := invalidate_loop (tlb s) v [0..<NR_TLB_ENTRIES cfg]\<rparr>;
          pd_index = pd_index_of cfg v;
          pte_index = pte_index_of cfg v
      in if NR_PTES_PER_PAGE cfg = 0 then Inl Division_By_Zero
         else if pd_index < 0 \<or> pd_index \<ge> int (NR_PTES_PER_PAGE cfg) then Inl Out_Of_Bounds
         else case ptbr_table s1 ! nat pd_index of
           Null \<Rightarrow> Inl Null_Dereference
         | Wild \<Rightarrow> Inl Wild_Pointer
         | Ptr pd \<Rightarrow>
             (let f = pfn (pd ! pte_index)
              in if f \<ge> NR_PAGEFRAMES cfg then Inl Out_Of_Bounds
                 else
                   (let s2 = s1\<lparr>mapcounts := (mapcounts s1)[f := mapcounts s1 ! f - 1]\<rparr>;
                        pd1 = pd[pte_index := (pd ! pte_index)\<lparr>pte.valid := False\<rparr>];
                        pd2 = pd1[pte_index := (pd1 ! pte_index)\<lparr>writable := False\<rparr>];
                        pd3 = pd2[pte_index := (pd2 ! pte_index)\<lparr>pfn := 0\<rparr>]
                    in Inr (set_ptbr_table s2 ((ptbr_table s2)[nat pd_index := Ptr pd3])))))"

subsection \<open>handle_page_fault\<close>

text \<open>
  \<^verbatim>\<open>handle_page_fault\<close> copies the entry without testing the directory
  index, the directory pointer or the valid bit.  For a write it reads
  \<^verbatim>\<open>mapcounts[pfn]\<close> and, in both of its branches, frees the page and
  allocates it again, ignoring what \<^verbatim>\<open>alloc_page\<close> returns.
\<close>

definition free_then_alloc ::
    "config \<Rightarrow> allocator \<Rightarrow> state \<Rightarrow> 32 word \<Rightarrow> nat \<Rightarrow> fault + (state \<times> bool)" where
  "free_then_alloc cfg al s v rw =
     (case free_page cfg s v of
        Inl e \<Rightarrow> Inl e
      | Inr s1 \<Rightarrow>
          (case alloc_page cfg al s1 v rw of
             Inl e \<Rightarrow> Inl e
           | Inr (s2, r) \<Rightarrow> Inr (s2, True)))"

definition handle_page_fault ::
    "config \<Rightarrow> allocator \<Rightarrow> state \<Rightarrow> 32 word \<Rightarrow> nat \<Rightarrow> fault + (state \<times> bool)" where
  "handle_page_fault cfg al s v rw =
     (let pd_index = pd_index_of cfg v;
          pte_index = pte_index_of cfg v
      in if NR_PTES_PER_PAGE cfg = 0 then Inl Division_By_Zero
         else if pd_index < 0 \<or> pd_index \<ge> int (NR_PTES_PER_PAGE cfg) then Inl Out_Of_Bounds
         else case ptbr_table s ! nat pd_index of
           Null \<Rightarrow> Inl Null_Dereference
         | Wild \<Rightarrow> Inl Wild_Pointer
         | Ptr pd \<Rightarrow>
             (let p = pd ! pte_index;
                  f = pfn p;
                  wasWrite = (private p \<noteq> 0)
              in if rw = RW_WRITE cfg then
                   (if f \<ge> NR_PAGEFRAMES cfg then Inl Out_Of_Bounds
                    else if mapcounts s ! f > 1 \<and> wasWrite then free_then_alloc cfg al s v rw
                    else if mapcounts s ! f = 1 \<and> wasWrite then free_then_alloc cfg al s v rw
                    else Inr (s, False))
                 else Inr (s, False)))"

subsection \<open>switch_process\<close>

text \<open>
  \<^verbatim>\<open>list_for_each_entry\<close> walks the ready queue from its head and stops at
  the first process whose \<^verbatim>\<open>pid\<close> matches.
\<close>

fun find_pid :: "process list \<Rightarrow> nat list \<Rightarrow> nat \<Rightarrow> nat option" where
  "find_pid ps [] n = None"
| "find_pid ps (a # as) n = (if pid (ps ! a) = n then Some a else find_pid ps as n)"

text \<open>The final loop of \<^verbatim>\<open>switch_process\<close> clears every valid bit that is set.\<close>

fun flush_loop :: "tlb_entry list \<Rightarrow> nat list \<Rightarrow> tlb_entry list" where
  "flush_loop t [] = t"
| "flush_loop t (i # is) =
     (if tlb_entry.valid (t ! i) = True
      then flush_loop (t[i := (t ! i)\<lparr>tlb_entry.valid := False\<rparr>]) is
      else flush_loop t is)"

text \<open>
  The inner loop of the fork, over the entries \<^verbatim>\<open>j\<close> of one directory: \<open>pd\<close>
  is the parent's directory, \<open>cp\<close> the child's pointer
  \<^verbatim>\<open>ptbr->outer_ptes[i]\<close>, \<open>mc\<close> the counters.  For a valid entry the
  parent's writable bit is cleared first, the entry is then copied field by
  field and stored through the child's pointer, and the counter of its frame
  is incremented.
\<close>

fun copy_ptes :: "config \<Rightarrow> nat list \<Rightarrow> pte_directory \<Rightarrow> dir_ptr \<Rightarrow> 32 word list \<Rightarrow>
    fault + (pte_directory \<times> dir_ptr \<times> 32 word list)" where
  "copy_ptes cfg [] pd cp mc = Inr (pd, cp, mc)"
| "copy_ptes cfg (j # js) pd cp mc =
     (if pte.valid (pd ! j) = True then
        (let pd1 = pd[j := (pd ! j)\<lparr>writable := False\<rparr>];
             copy = pd1 ! j;
             p = \<lparr>pte.valid = pte.valid copy, writable = writable copy,
                  pfn = pfn copy, private = private copy\<rparr>
         in case cp of
              Null \<Rightarrow> Inl Null_Dereference
            | Wild \<Rightarrow> Inl Wild_Pointer
            | Ptr cd \<Rightarrow>
                if pfn p \<ge> NR_PAGEFRAMES cfg then Inl Out_Of_Bounds
                else copy_ptes cfg js pd1 (Ptr (cd[j := p])) (mc[pfn p := mc ! pfn p + 1]))
      else copy_ptes cfg js pd cp mc)"

text \<open>
  The outer loop, over the directory slots \<^verbatim>\<open>i\<close>: \<open>prev\<close> is the parent's page
  table, \<open>ch\<close> the table of the new process at address \<open>a\<close>.  Where the parent
  has a directory and the child's pointer is null, a directory is allocated
  for the child.
\<close>

fun copy_dirs :: "config \<Rightarrow> allocator \<Rightarrow> nat \<Rightarrow> nat list \<Rightarrow> pagetable \<Rightarrow> pagetable \<Rightarrow>
    32 word list \<Rightarrow> fault + (pagetable \<times> pagetable \<times> 32 word list)" where
  "copy_dirs cfg al a [] prev ch mc = Inr (prev, ch, mc)"
| "copy_dirs cfg al a (i # is) prev ch mc =
     (case prev ! i of
        Null \<Rightarrow> copy_dirs cfg al a is prev ch mc
      | Wild \<Rightarrow> Inl Wild_Pointer
      | Ptr pd \<Rightarrow>
          (let cp = (case ch ! i of Null \<Rightarrow> Ptr (fresh_directory cfg al a i) | c \<Rightarrow> c)
           in case copy_ptes cfg [0..<NR_PTES_PER_PAGE cfg] pd cp mc of
                Inl e \<Rightarrow> Inl e
              | Inr (pd1, cp1, mc1) \<Rightarrow>
                  copy_dirs cfg al a is (prev[i := Ptr pd1]) (ch[i := cp1]) mc1))"

text \<open>
  \<^verbatim>\<open>switch_process\<close>.  When the pid is found, the process is unlinked, the
  current one is appended to the queue, and \<^verbatim>\<open>current\<close> and \<^verbatim>\<open>ptbr\<close> are
  repointed.  Otherwise the current process is appended to the queue, a new
  process object is allocated (at the next free address of the store, with
  the page table that \<^verbatim>\<open>malloc\<close> left in it), \<^verbatim>\<open>ptbr\<close> is pointed at its
  table, the parent's table is copied, and the new process becomes current.
  Both branches end in the flush loop.
\<close>

definition switch_process :: "config \<Rightarrow> allocator \<Rightarrow> state \<Rightarrow> nat \<Rightarrow> fault + state" where
  "switch_process cfg al s n =
     (case find_pid (procs s) (processes s) n of
        Some pos \<Rightarrow>
          Inr (s\<lparr>processes := remove1 pos (processes s) @ [current s],
                 current := pos,
                 ptbr := pos,
                 tlb := flush_loop (tlb s) [0..<NR_TLB_ENTRIES cfg]\<rparr>)
      | None \<Rightarrow>
          (let fork = length (procs s);
               prev = pagetable (procs s ! current s)
           in case copy_dirs cfg al fork [0..<NR_PTES_PER_PAGE cfg] prev (fresh_table cfg al fork)
                     (mapcounts s) of
                Inl e \<Rightarrow> Inl e
              | Inr (prev1, ch1, mc1) \<Rightarrow>
                  Inr (s\<lparr>procs := (procs s)[current s := (procs s ! current s)\<lparr>pagetable := prev1\<rparr>]
                                      @ [\<lparr>pid = n, pagetable = ch1\<rparr>],
                         processes := processes s @ [current s],
                         current := fork,
                         ptbr := fork,
                         mapcounts := mc1,
                         tlb := flush_loop (tlb s) [0..<NR_TLB_ENTRIES cfg]\<rparr>)))"

subsection \<open>Sequences of operations\<close>

text \<open>
  The operations as the driver issues them, one at a time.  A sequence stops
  at the first fault.
\<close>

datatype operation =
  Alloc "32 word" nat
| Free "32 word"
| Fault "32 word" nat
| Switch nat
| Insert "32 word" nat

fun step :: "config \<Rightarrow> allocator \<Rightarrow> state \<Rightarrow> operation \<Rightarrow> fault + state" where
  "step cfg al s (Alloc v rw) =
     (case alloc_page cfg al s v rw of Inl e \<Rightarrow> Inl e | Inr (s1, r) \<Rightarrow> Inr s1)"
| "step cfg al s (Free v) = free_page cfg s v"
| "step cfg al s (Fault v rw) =
     (case handle_page_fault cfg al s v rw of Inl e \<Rightarrow> Inl e | Inr (s1, r) \<Rightarrow> Inr s1)"
| "step cfg al s (Switch n) = switch_process cfg al s n"
| "step cfg al s (Insert v f) = insert_tlb cfg s v f"

fun run :: "config \<Rightarrow> allocator \<Rightarrow> state \<Rightarrow> operation list \<Rightarrow> fault + state" where
  "run cfg al s [] = Inr s"
| "run cfg al s (x # xs) =
     (case step cfg al s x of Inl e \<Rightarrow> Inl e | Inr s1 \<Rightarrow> run cfg al s1 xs)"

subsection \<open>Well-formed states and the reference count of a frame\<close>

text \<open>
  The arrays of the program have fixed sizes, the loops over the cache stay
  inside it, pointers to processes point to process objects, \<^verbatim>\<open>ptbr\<close> points
  to the table of the current process (every assignment to \<^verbatim>\<open>current\<close> in
  \<^verbatim>\<open>switch_process\<close> comes with the matching assignment to \<^verbatim>\<open>ptbr\<close>), and no
  page table holds a pointer that the program did not put there.  A valid
  entry names a frame that exists.
\<close>

definition wf_directory :: "config \<Rightarrow> pte_directory \<Rightarrow> bool" where
  "wf_directory cfg d \<longleftrightarrow>
     length d = NR_PTES_PER_PAGE cfg \<and>
     (\<forall>p \<in> set d. pte.valid p \<longrightarrow> pfn p < NR_PAGEFRAMES cfg)"

definition wf_table :: "config \<Rightarrow> pagetable \<Rightarrow> bool" where
  "wf_table cfg pt \<longleftrightarrow>
     length pt = NR_PTES_PER_PAGE cfg \<and>
     (\<forall>e \<in> set pt. case e of Null \<Rightarrow> True | Ptr d \<Rightarrow> wf_directory cfg d | Wild \<Rightarrow> False)"

definition wf_state :: "config \<Rightarrow> state \<Rightarrow> bool" where
  "wf_state cfg s \<longleftrightarrow>
     length (tlb s) = tlb_size cfg \<and>
     NR_TLB_ENTRIES cfg \<le> tlb_size cfg \<and>
     length (mapcounts s) = NR_PAGEFRAMES cfg \<and>
     current s < length (procs s) \<and>
     ptbr s = current s \<and>
     (\<forall>a \<in> set (processes s). a < length (procs s)) \<and>
     (\<forall>p \<in> set (procs s). wf_table cfg (pagetable p))"

text \<open>The entry that a page table holds for a page, if its directory exists.\<close>

definition pte_at :: "config \<Rightarrow> pagetable \<Rightarrow> 32 word \<Rightarrow> pte option" where
  "pte_at cfg pt v =
     (if unat v div NR_PTES_PER_PAGE cfg < NR_PTES_PER_PAGE cfg
      then (case pt ! (unat v div NR_PTES_PER_PAGE cfg) of
              Ptr d \<Rightarrow> Some (d ! (unat v mod NR_PTES_PER_PAGE cfg))
            | _ \<Rightarrow> None)
      else None)"

definition mapped :: "config \<Rightarrow> state \<Rightarrow> 32 word \<Rightarrow> bool" where
  "mapped cfg s v \<longleftrightarrow>
     (case pte_at cfg (ptbr_table s) v of None \<Rightarrow> False | Some p \<Rightarrow> pte.valid p)"

text \<open>
  The number of valid entries that name frame \<open>f\<close>: in one directory, in one
  page table, and in the page tables of all processes.
\<close>

definition dir_refs :: "nat \<Rightarrow> pte_directory \<Rightarrow> nat" where
  "dir_refs f d = length (filter (\<lambda>p. pte.valid p \<and> pfn p = f) d)"

definition slot_refs :: "nat \<Rightarrow> dir_ptr \<Rightarrow> nat" where
  "slot_refs f e = (case e of Ptr d \<Rightarrow> dir_refs f d | _ \<Rightarrow> 0)"

definition table_refs :: "nat \<Rightarrow> pagetable \<Rightarrow> nat" where
  "table_refs f pt = sum_list (map (slot_refs f) pt)"

definition refs :: "state \<Rightarrow> nat \<Rightarrow> nat" where
  "refs s f = sum_list (map (\<lambda>p. table_refs f (pagetable p)) (procs s))"

definition refcount_inv :: "config \<Rightarrow> state \<Rightarrow> bool" where
  "refcount_inv cfg s \<longleftrightarrow>
     (\<forall>f \<in> set [0..<NR_PAGEFRAMES cfg]. unat (mapcounts s ! f) = refs s f)"

text \<open>
  The entry that \<^verbatim>\<open>alloc_page\<close> builds for access mode \<open>rw\<close> and frame \<open>g\<close>, and
  what \<^verbatim>\<open>free_page\<close> leaves of an entry.
\<close>

definition new_pte :: "config \<Rightarrow> nat \<Rightarrow> nat \<Rightarrow> pte" where
  "new_pte cfg rw g =
     \<lparr>pte.valid = True, writable = (rw \<noteq> RW_READ cfg), pfn = g,
      private = (if rw \<noteq> RW_READ cfg then 1 else 0)\<rparr>"

definition freed_pte :: "pte \<Rightarrow> pte" where
  "freed_pte p = p\<lparr>pte.valid := False, writable := False, pfn := 0\<rparr>"

text \<open>The directory that \<^verbatim>\<open>alloc_page\<close> stores into: the one of the slot, or a fresh block.\<close>

definition target_directory :: "config \<Rightarrow> allocator \<Rightarrow> state \<Rightarrow> nat \<Rightarrow> pte_directory" where
  "target_directory cfg al s i =
     (case ptbr_table s ! i of Ptr d \<Rightarrow> d | _ \<Rightarrow> fresh_directory cfg al (ptbr s) i)"

subsection \<open>The fork, entry by entry\<close>

text \<open>
  What the fork loop makes of an entry \<open>p\<close> of the parent: the parent keeps
  \<open>share p\<close>, and the child's slot, which held \<open>c\<close>, becomes \<open>inherit p c\<close>.
  With zero-filled blocks the parent's table becomes \<open>share_table\<close> of it
  and the child's table \<open>child_table\<close> of it.
\<close>

definition share :: "pte \<Rightarrow> pte" where
  "share p = (if pte.valid p then p\<lparr>writable := False\<rparr> else p)"

definition inherit :: "pte \<Rightarrow> pte \<Rightarrow> pte" where
  "inherit p c = (if pte.valid p then p\<lparr>writable := False\<rparr> else c)"

definition map_ptr :: "(pte_directory \<Rightarrow> pte_directory) \<Rightarrow> dir_ptr \<Rightarrow> dir_ptr" where
  "map_ptr g e = (case e of Ptr d \<Rightarrow> Ptr (g d) | c \<Rightarrow> c)"

definition share_table :: "pagetable \<Rightarrow> pagetable" where
  "share_table pt = map (map_ptr (map share)) pt"

definition child_table :: "pagetable \<Rightarrow> pagetable" where
  "child_table pt = map (map_ptr (map (\<lambda>p. inherit p zero_pte))) pt"

subsection \<open>Admissible runs\<close>

text \<open>
  The driver's side of the contract for the reference counts: \<^verbatim>\<open>alloc_page\<close>
  is called for a page that has no valid entry, \<^verbatim>\<open>free_page\<close> and
  \<^verbatim>\<open>handle_page_fault\<close> for a page that has one, and a fork does not take a
  counter beyond the range of \<^verbatim>\<open>unsigned int\<close>.  A run is admissible when
  every operation in it is, in the state it is applied to, and none faults.
\<close>

fun admissible :: "config \<Rightarrow> state \<Rightarrow> operation \<Rightarrow> bool" where
  "admissible cfg s (Alloc v rw) = (\<not> mapped cfg s v)"
| "admissible cfg s (Free v) = mapped cfg s v"
| "admissible cfg s (Fault v rw) = mapped cfg s v"
| "admissible cfg s (Switch n) =
     (if find_pid (procs s) (processes s) n = None
      then (\<forall>f \<in> set [0..<NR_PAGEFRAMES cfg].
              int (refs s f + table_refs f (pagetable (procs s ! current s))) < 2 ^ 32)
      else True)"
| "admissible cfg s (Insert v f) = True"

fun admissible_run :: "config \<Rightarrow> allocator \<Rightarrow> state \<Rightarrow> operation list \<Rightarrow> bool" where
  "admissible_run cfg al s [] = True"
| "admissible_run cfg al s (x # xs) =
     (admissible cfg s x \<and>
      (case step cfg al s x of Inl e \<Rightarrow> False | Inr s1 \<Rightarrow> admissible_run cfg al s1 xs))"

subsection \<open>A small configuration and a few of its states\<close>

text \<open>
  Two entries per directory, three frames, and a cache of four slots, for
  the concrete runs below.  The constructors write a state down
  positionally; \<open>mk_state\<close> points \<^verbatim>\<open>ptbr\<close> at the current process, and
  \<open>no_tlb\<close> is the cache with no valid entry.
\<close>

definition cfg2 :: config where
  "cfg2 = \<lparr>PTES_PER_PAGE_SHIFT = 1, NR_PTES_PER_PAGE = 2, NR_PAGEFRAMES = 3,
           NR_TLB_ENTRIES = 4, RW_READ = 1, RW_WRITE = 2\<rparr>"

definition mk_state :: "process list \<Rightarrow> nat \<Rightarrow> nat list \<Rightarrow> tlb_entry list \<Rightarrow> nat \<Rightarrow>
    32 word list \<Rightarrow> state" where
  "mk_state ps c q t i mc =
     \<lparr>procs = ps, current = c, processes = q, ptbr = c, tlb = t, index = i, mapcounts = mc\<rparr>"

definition mk_pte :: "bool \<Rightarrow> bool \<Rightarrow> nat \<Rightarrow> nat \<Rightarrow> pte" where
  "mk_pte a w f x = \<lparr>pte.valid = a, writable = w, pfn = f, private = x\<rparr>"

definition mk_tlb :: "bool \<Rightarrow> 32 word \<Rightarrow> nat \<Rightarrow> tlb_entry" where
  "mk_tlb a v f = \<lparr>tlb_entry.valid = a, vpn = v, pfn = f\<rparr>"

definition mk_proc :: "nat \<Rightarrow> pagetable \<Rightarrow> process" where
  "mk_proc n pt = \<lparr>pid = n, pagetable = pt\<rparr>"

definition no_tlb :: "tlb_entry list" where
  "no_tlb = [mk_tlb False 0 0, mk_tlb False 0 0, mk_tlb False 0 0, mk_tlb False 0 0]"

text \<open>
  Two allocators whose blocks are not all zero.  In \<open>stale_directory\<close> entry 1
  of every directory block handed to the process at address 1 holds a valid
  entry for frame 2; in \<open>stale_pointer\<close> the first directory pointer in the
  block of that process is non-null.
\<close>

definition stale_directory :: allocator where
  "stale_directory =
     \<lparr>directory_block = (\<lambda>a i j. if a = 1 \<and> j = 1 then mk_pte True True 2 1 else zero_pte),
      process_block = (\<lambda>a i. False)\<rparr>"

definition stale_pointer :: allocator where
  "stale_pointer =
     \<lparr>directory_block = (\<lambda>a i j. zero_pte),
      process_block = (\<lambda>a i. a = 1 \<and> i = 0)\<rparr>"

section \<open>Properties\<close>

subsection \<open>The search for a free frame\<close>

lemma find_free_None: "find_free mc is = None \<longleftrightarrow> (\<forall>i \<in> set is. mc ! i \<noteq> 0)"
  by (induction "is") auto

lemma find_free_Some:
  "find_free mc is = Some g \<Longrightarrow> g \<in> set is \<and> mc ! g = 0"
  by (induction "is") (auto split: if_splits)

lemma find_free_least:
  "find_free mc is = Some g \<Longrightarrow> sorted is \<Longrightarrow> i \<in> set is \<Longrightarrow> i < g \<Longrightarrow> mc ! i \<noteq> 0"
  by (induction "is") (auto split: if_splits dest: find_free_Some)

lemma find_free_upt:
  assumes "find_free mc [0..<n] = Some g"
  shows "g < n \<and> mc ! g = 0 \<and> (\<forall>i<g. mc ! i \<noteq> 0)"
proof -
  from find_free_Some [OF assms] have g: "g < n" "mc ! g = 0" by auto
  have "mc ! i \<noteq> 0" if "i < g" for i
    using find_free_least [OF assms, of i] that g by simp
  with g show ?thesis by blast
qed

lemma find_free_exists:
  assumes "f < n" "mc ! f = 0"
  shows "\<exists>g. find_free mc [0..<n] = Some g"
proof (cases "find_free mc [0..<n]")
  case None
  with assms show ?thesis by (auto simp: find_free_None)
qed simp

lemma find_free_is:
  assumes "g < n" "mc ! g = 0" "\<forall>i<g. mc ! i \<noteq> 0"
  shows "find_free mc [0..<n] = Some g"
proof -
  from find_free_exists [OF assms(1,2)] obtain g' where g': "find_free mc [0..<n] = Some g'" by blast
  from find_free_upt [OF g'] assms have "g' = g"
    by (metis linorder_neqE_nat)
  with g' show ?thesis by simp
qed

subsection \<open>The directory index\<close>

text \<open>
  A quotient below \<^verbatim>\<open>NR_PTES_PER_PAGE\<close> is below \<^verbatim>\<open>2^31\<close>, whatever the macro's
  value: the conversion to \<^verbatim>\<open>int\<close> keeps it.  A directory index that is not
  negative is the quotient.
\<close>

lemma quotient_small:
  assumes "unat (v :: 32 word) div n < n"
  shows "unat v div n < 2 ^ 31"
proof (cases "n \<le> 1")
  case True
  with assms show ?thesis by simp
next
  case False
  then have "unat v div n \<le> unat v div 2" by (intro div_le_mono2) simp_all
  moreover have "unat v < 2 ^ 32" using unsigned_less [of v] by simp
  ultimately show ?thesis by simp
qed

lemma pd_index_in_range:
  assumes "unat v div NR_PTES_PER_PAGE cfg < NR_PTES_PER_PAGE cfg"
  shows "pd_index_of cfg v = int (unat v div NR_PTES_PER_PAGE cfg)"
  using quotient_small [OF assms] by (simp add: pd_index_of_def to_int_def)

lemma pd_index_nonneg:
  assumes "0 \<le> pd_index_of cfg v"
  shows "pd_index_of cfg v = int (unat v div NR_PTES_PER_PAGE cfg)"
proof -
  have "unat v div NR_PTES_PER_PAGE cfg \<le> unat v" by (rule div_le_dividend)
  moreover have "unat v < 2 ^ 32" using unsigned_less [of v] by simp
  ultimately have "unat v div NR_PTES_PER_PAGE cfg < 2 ^ 32" by (rule le_less_trans)
  then have "int (unat v div NR_PTES_PER_PAGE cfg) < 2 ^ 32" by simp
  with assms show ?thesis by (simp add: pd_index_of_def to_int_def split: if_splits)
qed

lemma pd_index_negative:
  "pd_index_of cfg v < 0 \<longleftrightarrow> 2 ^ 31 \<le> unat v div NR_PTES_PER_PAGE cfg"
proof -
  have "unat v div NR_PTES_PER_PAGE cfg \<le> unat v" by (rule div_le_dividend)
  moreover have "unat v < 2 ^ 32" using unsigned_less [of v] by simp
  ultimately have "unat v div NR_PTES_PER_PAGE cfg < 2 ^ 32" by (rule le_less_trans)
  then have "int (unat v div NR_PTES_PER_PAGE cfg) < 2 ^ 32" by simp
  then show ?thesis by (auto simp: pd_index_of_def to_int_def)
qed

subsection \<open>The translation cache\<close>

text \<open>
  What \<^verbatim>\<open>insert_tlb\<close> does while the cursor is inside the array: the mapping
  is installed at the slot that the cursor designates, whatever that slot
  held before, every other slot is left as it was (an existing entry for
  the page is neither searched for nor overwritten), the cursor advances by
  one, and nothing but the cache and the cursor changes.
\<close>

lemma insert_tlb_at_cursor:
  assumes "index s < tlb_size cfg" and "length (tlb s) = tlb_size cfg"
  shows "\<exists>s'. insert_tlb cfg s v f = Inr s' \<and>
           tlb s' ! index s = \<lparr>tlb_entry.valid = True, vpn = v, pfn = f\<rparr> \<and>
           (\<forall>j. j \<noteq> index s \<longrightarrow> tlb s' ! j = tlb s ! j) \<and>
           length (tlb s') = tlb_size cfg \<and>
           index s' = index s + 1 \<and>
           procs s' = procs s \<and> mapcounts s' = mapcounts s \<and>
           current s' = current s \<and> processes s' = processes s \<and> ptbr s' = ptbr s"
  using assms by (simp add: insert_tlb_def)

text \<open>The cursor only grows, and at the size of the array every insertion is a fault.\<close>

lemma insert_tlb_beyond:
  "tlb_size cfg \<le> index s \<Longrightarrow> insert_tlb cfg s v f = Inl Out_Of_Bounds"
  by (simp add: insert_tlb_def)

text \<open>
  Claim C2 says that \<^verbatim>\<open>insert_tlb\<close> overwrites an existing valid entry for the
  page in place, and otherwise uses a cursor that wraps modulo the capacity,
  so that it never writes outside the table.  The code keeps the cursor in a
  \<^verbatim>\<open>static int index\<close> that it increments and never reduces.  With a cache
  of four slots: pages 0 and 1 are allocated and their translations
  inserted, the process forks and the child inserts the two translations
  again after the flush, and the parent is switched back in.  The cache is
  empty again, page 0 misses, and the insertion that follows the miss stores
  at \<^verbatim>\<open>tlb[4]\<close>, outside the array.
\<close>

theorem insert_tlb_outside_array:
  "run cfg2 zeroed (init_state cfg2)
     [Alloc 0 2, Alloc 1 2, Insert 0 0, Insert 1 1, Switch 1, Insert 0 0, Insert 1 1, Switch 0]
     = Inr (mk_state [mk_proc 0 [Ptr [mk_pte True False 0 1, mk_pte True False 1 1], Null],
                      mk_proc 1 [Ptr [mk_pte True False 0 1, mk_pte True False 1 1], Null]] 0 [1]
              [mk_tlb False 0 0, mk_tlb False 1 1, mk_tlb False 0 0, mk_tlb False 1 1] 4 [2, 2, 0])
   \<and> tlb_size cfg2 = 4
   \<and> lookup_tlb cfg2
        (mk_state [mk_proc 0 [Ptr [mk_pte True False 0 1, mk_pte True False 1 1], Null],
                   mk_proc 1 [Ptr [mk_pte True False 0 1, mk_pte True False 1 1], Null]] 0 [1]
           [mk_tlb False 0 0, mk_tlb False 1 1, mk_tlb False 0 0, mk_tlb False 1 1] 4 [2, 2, 0]) 0
     = None
   \<and> insert_tlb cfg2
        (mk_state [mk_proc 0 [Ptr [mk_pte True False 0 1, mk_pte True False 1 1], Null],
                   mk_proc 1 [Ptr [mk_pte True False 0 1, mk_pte True False 1 1], Null]] 0 [1]
           [mk_tlb False 0 0, mk_tlb False 1 1, mk_tlb False 0 0, mk_tlb False 1 1] 4 [2, 2, 0]) 0 0
     = Inl Out_Of_Bounds"
  by code_simp
subsection \<open>Page tables reached through the base pointer\<close>

lemma wf_state_ptbr_table:
  assumes "wf_state cfg s"
  shows "ptbr s < length (procs s)" "wf_table cfg (ptbr_table s)"
        "length (ptbr_table s) = NR_PTES_PER_PAGE cfg"
  using assms by (auto simp: wf_state_def ptbr_table_def wf_table_def)

lemma wf_table_slot:
  assumes "wf_table cfg pt" "i < NR_PTES_PER_PAGE cfg"
  shows "pt ! i \<noteq> Wild"
proof -
  from assms have "pt ! i \<in> set pt" by (simp add: wf_table_def)
  with assms(1) have "case pt ! i of Null \<Rightarrow> True | Ptr d \<Rightarrow> wf_directory cfg d | Wild \<Rightarrow> False"
    unfolding wf_table_def by blast
  then show ?thesis by auto
qed

lemma wf_table_dir:
  assumes "wf_table cfg pt" "i < NR_PTES_PER_PAGE cfg" "pt ! i = Ptr d"
  shows "wf_directory cfg d" "length d = NR_PTES_PER_PAGE cfg"
proof -
  from assms have "Ptr d \<in> set pt" by (metis nth_mem wf_table_def)
  with assms show "wf_directory cfg d" by (auto simp: wf_table_def)
  then show "length d = NR_PTES_PER_PAGE cfg" by (simp add: wf_directory_def)
qed

lemma wf_directory_pfn:
  assumes "wf_directory cfg d" "j < length d" "pte.valid (d ! j)"
  shows "pfn (d ! j) < NR_PAGEFRAMES cfg"
  using assms by (auto simp: wf_directory_def)

lemma ptbr_table_set [simp]:
  "ptbr s < length (procs s) \<Longrightarrow> ptbr_table (set_ptbr_table s pt) = pt"
  by (simp add: ptbr_table_def set_ptbr_table_def)

lemma set_ptbr_table_fields [simp]:
  "mapcounts (set_ptbr_table s pt) = mapcounts s"
  "tlb (set_ptbr_table s pt) = tlb s"
  "index (set_ptbr_table s pt) = index s"
  "current (set_ptbr_table s pt) = current s"
  "processes (set_ptbr_table s pt) = processes s"
  "ptbr (set_ptbr_table s pt) = ptbr s"
  "length (procs (set_ptbr_table s pt)) = length (procs s)"
  by (simp_all add: set_ptbr_table_def)

lemma ptbr_table_upd [simp]:
  "ptbr_table (s\<lparr>mapcounts := mc\<rparr>) = ptbr_table s"
  "ptbr_table (s\<lparr>tlb := t\<rparr>) = ptbr_table s"
  by (simp_all add: ptbr_table_def)

lemma zero_directory_length [simp]: "length (zero_directory cfg) = NR_PTES_PER_PAGE cfg"
  by (simp add: zero_directory_def)

lemma fresh_directory_length [simp]:
  "length (fresh_directory cfg al a i) = NR_PTES_PER_PAGE cfg"
  by (simp add: fresh_directory_def)

lemma fresh_directory_zero:
  "zero_filled al \<Longrightarrow> fresh_directory cfg al a i = zero_directory cfg"
  by (intro nth_equalityI) (simp_all add: fresh_directory_def zero_directory_def zero_filled_def)

lemma fresh_table_zero:
  "zero_filled al \<Longrightarrow> fresh_table cfg al a = zero_pagetable cfg"
  by (intro nth_equalityI) (simp_all add: fresh_table_def zero_pagetable_def zero_filled_def)

lemma zero_filled_zeroed: "zero_filled zeroed"
  by (simp add: zero_filled_def zeroed_def)


lemma target_directory_upd [simp]:
  "target_directory cfg al (s\<lparr>mapcounts := mc\<rparr>) i = target_directory cfg al s i"
  by (simp add: target_directory_def cong: dir_ptr.case_cong)

lemma pte_at_update_same:
  assumes "unat v div NR_PTES_PER_PAGE cfg < NR_PTES_PER_PAGE cfg"
    and "length pt = NR_PTES_PER_PAGE cfg" and "length d = NR_PTES_PER_PAGE cfg"
  shows "pte_at cfg (pt[unat v div NR_PTES_PER_PAGE cfg :=
                       Ptr (d[unat v mod NR_PTES_PER_PAGE cfg := p])]) v = Some p"
  using assms by (simp add: pte_at_def)

subsection \<open>alloc_page\<close>

text \<open>
  For a directory index at or above \<^verbatim>\<open>NR_PTES_PER_PAGE\<close> (a positive
  number) the call returns \<^verbatim>\<open>-1\<close> and changes nothing.  A quotient of
  \<^verbatim>\<open>2^31\<close> or more is a negative index, which the test lets through.
\<close>

lemma alloc_page_bad_index:
  assumes "0 < NR_PTES_PER_PAGE cfg" and "int (NR_PTES_PER_PAGE cfg) \<le> pd_index_of cfg v"
  shows "alloc_page cfg al s v rw = Inr (s, minus_one)"
  using assms by (simp add: alloc_page_def Let_def)

lemma alloc_page_no_divisor:
  "NR_PTES_PER_PAGE cfg = 0 \<Longrightarrow> alloc_page cfg al s v rw = Inl Division_By_Zero"
  by (simp add: alloc_page_def Let_def)

lemma pd_index_no_divisor: "NR_PTES_PER_PAGE cfg = 0 \<Longrightarrow> pd_index_of cfg v = 0"
  by (simp add: pd_index_of_def to_int_def)

lemma alloc_page_negative_index:
  assumes "pd_index_of cfg v < 0" and "find_free (mapcounts s) [0..<NR_PAGEFRAMES cfg] = Some g"
  shows "alloc_page cfg al s v rw = Inl Out_Of_Bounds"
proof -
  from assms(1) have "0 < NR_PTES_PER_PAGE cfg"
    using pd_index_no_divisor [of cfg v] by (cases "NR_PTES_PER_PAGE cfg = 0") simp_all
  with assms show ?thesis by (simp add: alloc_page_def Let_def)
qed

lemma alloc_page_no_free:
  assumes "pd_index_of cfg v < int (NR_PTES_PER_PAGE cfg)"
    and "\<forall>i < NR_PAGEFRAMES cfg. mapcounts s ! i \<noteq> 0"
  shows "alloc_page cfg al s v rw = Inl Uninitialised_Read"
proof -
  from assms(2) have "find_free (mapcounts s) [0..<NR_PAGEFRAMES cfg] = None"
    by (simp add: find_free_None)
  moreover from assms(1) have "0 < NR_PTES_PER_PAGE cfg"
    using pd_index_no_divisor [of cfg v] by (cases "NR_PTES_PER_PAGE cfg = 0") simp_all
  ultimately show ?thesis using assms(1) by (simp add: alloc_page_def Let_def)
qed

lemma alloc_page_found:
  assumes pd: "unat v div NR_PTES_PER_PAGE cfg < NR_PTES_PER_PAGE cfg"
    and g: "find_free (mapcounts s) [0..<NR_PAGEFRAMES cfg] = Some g"
    and nw: "ptbr_table s ! (unat v div NR_PTES_PER_PAGE cfg) \<noteq> Wild"
  shows "alloc_page cfg al s v rw =
     Inr (set_ptbr_table (s\<lparr>mapcounts := (mapcounts s)[g := mapcounts s ! g + 1]\<rparr>)
            ((ptbr_table s)[unat v div NR_PTES_PER_PAGE cfg :=
               Ptr ((target_directory cfg al s (unat v div NR_PTES_PER_PAGE cfg))
                     [unat v mod NR_PTES_PER_PAGE cfg := new_pte cfg rw g])]), g)"
  using pd g nw pd_index_in_range [OF pd]
  by (simp add: alloc_page_def Let_def new_pte_def target_directory_def pte_index_of_def
           split: dir_ptr.split)



text \<open>
  Claim C3 says that \<^verbatim>\<open>alloc_page\<close> returns \<^verbatim>\<open>-1\<close> and changes nothing when the
  directory index is out of range or when no frame is free.  The first half
  is lemma \<open>alloc_page_bad_index\<close>.  The second fails: the function never
  tests whether the search found a frame, although its own header comment
  promises \<^verbatim>\<open>-1\<close> when all page frames are allocated.  After three
  allocations have used the three frames, a fourth one reads the unassigned
  \<^verbatim>\<open>pfn\<close>.
\<close>

theorem alloc_page_all_frames_in_use:
  "run cfg2 zeroed (init_state cfg2) [Alloc 0 2, Alloc 1 2, Alloc 2 2]
     = Inr (mk_state [mk_proc 0 [Ptr [mk_pte True True 0 1, mk_pte True True 1 1],
                                 Ptr [mk_pte True True 2 1, zero_pte]]] 0 []
              no_tlb 0 [1, 1, 1])
   \<and> alloc_page cfg2 zeroed
        (mk_state [mk_proc 0 [Ptr [mk_pte True True 0 1, mk_pte True True 1 1],
                              Ptr [mk_pte True True 2 1, zero_pte]]] 0 []
           no_tlb 0 [1, 1, 1]) 3 2
     = Inl Uninitialised_Read"
  by code_simp
subsection \<open>free_page\<close>

lemma free_page_found:
  assumes pd: "unat v div NR_PTES_PER_PAGE cfg < NR_PTES_PER_PAGE cfg"
    and d: "ptbr_table s ! (unat v div NR_PTES_PER_PAGE cfg) = Ptr d"
    and len: "length d = NR_PTES_PER_PAGE cfg"
    and f: "pfn (d ! (unat v mod NR_PTES_PER_PAGE cfg)) < NR_PAGEFRAMES cfg"
    and p: "ptbr s < length (procs s)"
  shows "free_page cfg s v =
     Inr (set_ptbr_table
            (s\<lparr>tlb := invalidate_loop (tlb s) v [0..<NR_TLB_ENTRIES cfg],
               mapcounts := (mapcounts s)[pfn (d ! (unat v mod NR_PTES_PER_PAGE cfg)) :=
                  mapcounts s ! pfn (d ! (unat v mod NR_PTES_PER_PAGE cfg)) - 1]\<rparr>)
            ((ptbr_table s)[unat v div NR_PTES_PER_PAGE cfg :=
               Ptr (d[unat v mod NR_PTES_PER_PAGE cfg :=
                      freed_pte (d ! (unat v mod NR_PTES_PER_PAGE cfg))])]))"
proof -
  have "unat v mod NR_PTES_PER_PAGE cfg < length d" using pd len by simp
  then show ?thesis using pd d f pd_index_in_range [OF pd]
    by (simp add: free_page_def Let_def freed_pte_def pte_index_of_def)
qed

lemma free_page_bad_index:
  "\<not> unat v div NR_PTES_PER_PAGE cfg < NR_PTES_PER_PAGE cfg \<Longrightarrow>
   free_page cfg s v =
     Inl (if NR_PTES_PER_PAGE cfg = 0 then Division_By_Zero else Out_Of_Bounds)"
  using pd_index_nonneg [of cfg v] by (auto simp: free_page_def Let_def)

lemma free_page_null:
  "unat v div NR_PTES_PER_PAGE cfg < NR_PTES_PER_PAGE cfg \<Longrightarrow>
   ptbr_table s ! (unat v div NR_PTES_PER_PAGE cfg) = Null \<Longrightarrow>
   free_page cfg s v = Inl Null_Dereference"
  using pd_index_in_range [of v cfg] by (simp add: free_page_def Let_def)

lemma pte_atD:
  assumes "pte_at cfg pt v = Some p"
  obtains d where "unat v div NR_PTES_PER_PAGE cfg < NR_PTES_PER_PAGE cfg"
    "pt ! (unat v div NR_PTES_PER_PAGE cfg) = Ptr d"
    "p = d ! (unat v mod NR_PTES_PER_PAGE cfg)"
  using assms by (auto simp: pte_at_def split: dir_ptr.splits if_splits)

text \<open>
  What \<^verbatim>\<open>free_page\<close> does to a mapped page: the first cached translation of
  the page is invalidated, the count of the mapped frame goes down by one,
  and the entry keeps its \<^verbatim>\<open>private\<close> field while \<^verbatim>\<open>valid\<close>, \<^verbatim>\<open>writable\<close> and
  \<^verbatim>\<open>pfn\<close> are cleared.
\<close>

lemma free_page_mapped:
  assumes wf: "wf_state cfg s" and m: "pte_at cfg (ptbr_table s) v = Some p" and va: "pte.valid p"
  shows "\<exists>s'. free_page cfg s v = Inr s' \<and>
           pte_at cfg (ptbr_table s') v = Some (freed_pte p) \<and>
           private (freed_pte p) = private p \<and>
           mapcounts s' = (mapcounts s)[pfn p := mapcounts s ! pfn p - 1] \<and>
           tlb s' = invalidate_loop (tlb s) v [0..<NR_TLB_ENTRIES cfg]"
proof -
  from m obtain d where pd: "unat v div NR_PTES_PER_PAGE cfg < NR_PTES_PER_PAGE cfg"
    and d: "ptbr_table s ! (unat v div NR_PTES_PER_PAGE cfg) = Ptr d"
    and p: "p = d ! (unat v mod NR_PTES_PER_PAGE cfg)"
    by (rule pte_atD)
  note t = wf_state_ptbr_table [OF wf]
  note wd = wf_table_dir [OF t(2) pd d]
  have j: "unat v mod NR_PTES_PER_PAGE cfg < length d" using pd wd(2) by simp
  have f: "pfn (d ! (unat v mod NR_PTES_PER_PAGE cfg)) < NR_PAGEFRAMES cfg"
    using wf_directory_pfn [OF wd(1) j] va p by simp
  show ?thesis
    unfolding free_page_found [OF pd d wd(2) f t(1)]
    using t(1) p pd t(3) wd(2) j
    by (simp add: pte_at_def freed_pte_def)
qed

text \<open>
  Claim C6 says that \<^verbatim>\<open>free_page\<close> clears the entry to
  \<^verbatim>\<open>{valid: false, writable: false, frame: 0, wasWritable: false}\<close>.  The code
  declares \<^verbatim>\<open>struct pte p = {false,false,0,0}\<close> and never stores it; the three
  assignments that follow leave \<^verbatim>\<open>private\<close> as it was.  Page 0 is allocated
  for writing and freed: its entry still has \<^verbatim>\<open>private = 1\<close>.
\<close>

theorem free_page_keeps_private:
  "run cfg2 zeroed (init_state cfg2) [Alloc 0 2]
     = Inr (mk_state [mk_proc 0 [Ptr [mk_pte True True 0 1, zero_pte], Null]] 0 []
              no_tlb 0 [1, 0, 0])
   \<and> free_page cfg2
        (mk_state [mk_proc 0 [Ptr [mk_pte True True 0 1, zero_pte], Null]] 0 []
           no_tlb 0 [1, 0, 0]) 0
     = Inr (mk_state [mk_proc 0 [Ptr [mk_pte False False 0 1, zero_pte], Null]] 0 []
              no_tlb 0 [0, 0, 0])
   \<and> pte_at cfg2
        (ptbr_table (mk_state [mk_proc 0 [Ptr [mk_pte False False 0 1, zero_pte], Null]] 0 []
           no_tlb 0 [0, 0, 0])) 0
     = Some (mk_pte False False 0 1)"
  by code_simp

subsection \<open>handle_page_fault\<close>

lemma handle_page_fault_found:
  assumes pd: "unat v div NR_PTES_PER_PAGE cfg < NR_PTES_PER_PAGE cfg"
    and d: "ptbr_table s ! (unat v div NR_PTES_PER_PAGE cfg) = Ptr d"
  shows "handle_page_fault cfg al s v rw =
     (if rw = RW_WRITE cfg then
        (if NR_PAGEFRAMES cfg \<le> pfn (d ! (unat v mod NR_PTES_PER_PAGE cfg)) then Inl Out_Of_Bounds
         else if (1 < mapcounts s ! pfn (d ! (unat v mod NR_PTES_PER_PAGE cfg)) \<or>
                  mapcounts s ! pfn (d ! (unat v mod NR_PTES_PER_PAGE cfg)) = 1) \<and>
                 private (d ! (unat v mod NR_PTES_PER_PAGE cfg)) \<noteq> 0
              then free_then_alloc cfg al s v rw
              else Inr (s, False))
      else Inr (s, False))"
  using pd d pd_index_in_range [OF pd]
  by (auto simp: handle_page_fault_def Let_def pte_index_of_def)

text \<open>
  A fault on an entry whose \<^verbatim>\<open>private\<close> field is 0 fails and changes
  nothing, whether the entry is valid or not and whatever the access mode,
  provided the directory of the page exists and the frame number in the
  entry is in range.
\<close>

lemma handle_page_fault_never_writable:
  assumes "pte_at cfg (ptbr_table s) v = Some p" and "private p = 0"
    and "pfn p < NR_PAGEFRAMES cfg"
  shows "handle_page_fault cfg al s v rw = Inr (s, False)"
proof -
  from assms(1) obtain d where pd: "unat v div NR_PTES_PER_PAGE cfg < NR_PTES_PER_PAGE cfg"
    and d: "ptbr_table s ! (unat v div NR_PTES_PER_PAGE cfg) = Ptr d"
    and p: "p = d ! (unat v mod NR_PTES_PER_PAGE cfg)"
    by (rule pte_atD)
  show ?thesis unfolding handle_page_fault_found [OF pd d] using assms(2,3) p by simp
qed

lemma handle_page_fault_null:
  "unat v div NR_PTES_PER_PAGE cfg < NR_PTES_PER_PAGE cfg \<Longrightarrow>
   ptbr_table s ! (unat v div NR_PTES_PER_PAGE cfg) = Null \<Longrightarrow>
   handle_page_fault cfg al s v rw = Inl Null_Dereference"
  using pd_index_in_range [of v cfg] by (simp add: handle_page_fault_def Let_def)

text \<open>
  Claim C9 says that a fault on an unmapped entry fails and changes nothing.
  \<^verbatim>\<open>handle_page_fault\<close> never tests the valid bit, and its header comment
  lists the invalid entry among the situations it has to identify.  Pages 0
  and 1 are allocated for writing and page 1 is freed; its entry is invalid
  with frame number 0 and the stale \<^verbatim>\<open>private = 1\<close>.  A write fault on page 1
  then finds the count 1 of frame 0, which page 0 owns, returns \<^verbatim>\<open>true\<close>, and
  leaves pages 0 and 1 both mapped to frame 0 with count 1.
\<close>

theorem handle_page_fault_on_freed_page:
  "run cfg2 zeroed (init_state cfg2) [Alloc 0 2, Alloc 1 2, Free 1]
     = Inr (mk_state [mk_proc 0 [Ptr [mk_pte True True 0 1, mk_pte False False 0 1], Null]] 0 []
              no_tlb 0 [1, 0, 0])
   \<and> mapped cfg2
        (mk_state [mk_proc 0 [Ptr [mk_pte True True 0 1, mk_pte False False 0 1], Null]] 0 []
           no_tlb 0 [1, 0, 0]) 1 = False
   \<and> handle_page_fault cfg2 zeroed
        (mk_state [mk_proc 0 [Ptr [mk_pte True True 0 1, mk_pte False False 0 1], Null]] 0 []
           no_tlb 0 [1, 0, 0]) 1 2
     = Inr (mk_state [mk_proc 0 [Ptr [mk_pte True True 0 1, mk_pte True True 0 1], Null]] 0 []
              no_tlb 0 [1, 0, 0], True)"
  by code_simp

text \<open>
  Claim C1 says that a write fault on a valid, originally writable entry
  whose frame has count 1 sets the writable bit in place and keeps the frame.
  The code frees the page and allocates it again, and the allocation takes
  the lowest free frame.  In the state below (reached from the initial state
  by the listed operations) process 0 has page 1 on frame 1 with count 1,
  and frame 0 is free: the fault moves page 1 to frame 0.
\<close>

theorem handle_page_fault_moves_frame:
  "run cfg2 zeroed (init_state cfg2)
     [Alloc 0 2, Alloc 1 2, Switch 1, Free 0, Fault 1 2, Switch 0, Free 0]
     = Inr (mk_state [mk_proc 0 [Ptr [mk_pte False False 0 1, mk_pte True False 1 1], Null],
                      mk_proc 1 [Ptr [mk_pte False False 0 1, mk_pte True True 2 1], Null]] 0 [1]
              no_tlb 0 [0, 1, 1])
   \<and> handle_page_fault cfg2 zeroed
        (mk_state [mk_proc 0 [Ptr [mk_pte False False 0 1, mk_pte True False 1 1], Null],
                   mk_proc 1 [Ptr [mk_pte False False 0 1, mk_pte True True 2 1], Null]] 0 [1]
           no_tlb 0 [0, 1, 1]) 1 2
     = Inr (mk_state [mk_proc 0 [Ptr [mk_pte False False 0 1, mk_pte True True 0 1], Null],
                      mk_proc 1 [Ptr [mk_pte False False 0 1, mk_pte True True 2 1], Null]] 0 [1]
              no_tlb 0 [1, 0, 1], True)"
  by code_simp

text \<open>
  Claim C1, amended by one hypothesis: no frame with a lower number than the
  mapped one is free.  Then the fault is resolved, the entry is valid and
  writable on the same frame, with \<^verbatim>\<open>private = 1\<close>, and every count is what it
  was, the count of that frame being 1.  (The code gets there by releasing
  the frame and allocating it again.)
\<close>

theorem handle_page_fault_sole_owner:
  assumes wf: "wf_state cfg s" and rwne: "RW_READ cfg \<noteq> RW_WRITE cfg"
    and m: "pte_at cfg (ptbr_table s) v = Some p"
    and va: "pte.valid p" and wa: "private p \<noteq> 0"
    and cnt1: "mapcounts s ! pfn p = 1"
    and lowest: "\<forall>i < pfn p. mapcounts s ! i \<noteq> 0"
  shows "\<exists>s'. handle_page_fault cfg al s v (RW_WRITE cfg) = Inr (s', True) \<and>
           pte_at cfg (ptbr_table s') v =
             Some \<lparr>pte.valid = True, writable = True, pfn = pfn p, private = 1\<rparr> \<and>
           mapcounts s' = mapcounts s"
proof -
  let ?N = "NR_PTES_PER_PAGE cfg"
  let ?i = "unat v div ?N" and ?j = "unat v mod ?N"
  from m obtain d where pd: "?i < ?N" and d: "ptbr_table s ! ?i = Ptr d" and p: "p = d ! ?j"
    by (rule pte_atD)
  note t = wf_state_ptbr_table [OF wf]
  note wd = wf_table_dir [OF t(2) pd d]
  have j: "?j < length d" using pd wd(2) by simp
  have f: "pfn (d ! ?j) < NR_PAGEFRAMES cfg"
    using wf_directory_pfn [OF wd(1) j] va p by simp
  have flen: "pfn p < length (mapcounts s)" using f p wf by (simp add: wf_state_def)
  define d1 where "d1 = d[?j := freed_pte (d ! ?j)]"
  define s1 where "s1 = set_ptbr_table
            (s\<lparr>tlb := invalidate_loop (tlb s) v [0..<NR_TLB_ENTRIES cfg],
               mapcounts := (mapcounts s)[pfn (d ! ?j) := mapcounts s ! pfn (d ! ?j) - 1]\<rparr>)
            ((ptbr_table s)[?i := Ptr d1])"
  have fr: "free_page cfg s v = Inr s1"
    unfolding s1_def d1_def by (rule free_page_found [OF pd d wd(2) f t(1)])
  have mc1: "mapcounts s1 = (mapcounts s)[pfn p := 0]"
    using cnt1 p by (simp add: s1_def)
  have pt1: "ptbr_table s1 = (ptbr_table s)[?i := Ptr d1]"
    using t(1) by (simp add: s1_def)
  have ff: "find_free (mapcounts s1) [0..<NR_PAGEFRAMES cfg] = Some (pfn p)"
  proof (rule find_free_is)
    show "pfn p < NR_PAGEFRAMES cfg" using f p by simp
    show "mapcounts s1 ! pfn p = 0" using mc1 flen by simp
    show "\<forall>i<pfn p. mapcounts s1 ! i \<noteq> 0" using mc1 lowest by simp
  qed
  have len1: "length (ptbr_table s1) = ?N" using pt1 t(3) by simp
  have slot1: "ptbr_table s1 ! ?i = Ptr d1" using pt1 pd t(3) by simp
  then have nw: "ptbr_table s1 ! ?i \<noteq> Wild" by simp
  have tgt: "target_directory cfg al s1 ?i = d1" using slot1 by (simp add: target_directory_def)
  note al = alloc_page_found [OF pd ff nw, of al "RW_WRITE cfg"]
  have p1: "ptbr s1 < length (procs s1)" using t(1) by (simp add: s1_def)
  have d1len: "length d1 = ?N" using wd(2) by (simp add: d1_def)
  have restore: "(mapcounts s1)[pfn p := mapcounts s1 ! pfn p + 1] = mapcounts s"
    using mc1 flen cnt1 by (simp add: list_update_same_conv)
  have hpf: "handle_page_fault cfg al s v (RW_WRITE cfg) = free_then_alloc cfg al s v (RW_WRITE cfg)"
    unfolding handle_page_fault_found [OF pd d] using f cnt1 wa p by simp
  have fta: "free_then_alloc cfg al s v (RW_WRITE cfg) =
      Inr (set_ptbr_table (s1\<lparr>mapcounts := mapcounts s\<rparr>)
            ((ptbr_table s1)[?i := Ptr (d1[?j := new_pte cfg (RW_WRITE cfg) (pfn p)])]), True)"
    by (simp add: free_then_alloc_def fr al restore tgt)
  show ?thesis
    unfolding hpf fta
    using p1 rwne pte_at_update_same [OF pd len1 d1len]
    by (simp add: new_pte_def)
qed

text \<open>
  The amended claim C1 at a parent whose child already has a private copy:
  page 1 of process 0 is on frame 1, read-only since the fork, with count 1,
  and frame 0 is in use.
\<close>

theorem handle_page_fault_sole_owner_witness:
  "wf_state cfg2
     (mk_state [mk_proc 0 [Ptr [mk_pte True False 0 1, mk_pte True False 1 1], Null],
                mk_proc 1 [Ptr [mk_pte True False 0 1, mk_pte True True 2 1], Null]] 0 [1]
        no_tlb 0 [2, 1, 1]) \<and>
   RW_READ cfg2 \<noteq> RW_WRITE cfg2 \<and>
   pte_at cfg2 (ptbr_table
     (mk_state [mk_proc 0 [Ptr [mk_pte True False 0 1, mk_pte True False 1 1], Null],
                mk_proc 1 [Ptr [mk_pte True False 0 1, mk_pte True True 2 1], Null]] 0 [1]
        no_tlb 0 [2, 1, 1])) 1 = Some (mk_pte True False 1 1) \<and>
   (\<exists>s'. handle_page_fault cfg2 zeroed
            (mk_state [mk_proc 0 [Ptr [mk_pte True False 0 1, mk_pte True False 1 1], Null],
                       mk_proc 1 [Ptr [mk_pte True False 0 1, mk_pte True True 2 1], Null]] 0 [1]
               no_tlb 0 [2, 1, 1]) 1 (RW_WRITE cfg2) = Inr (s', True) \<and>
          pte_at cfg2 (ptbr_table s') 1 =
            Some \<lparr>pte.valid = True, writable = True, pfn = pfn (mk_pte True False 1 1), private = 1\<rparr> \<and>
          mapcounts s' = [2, 1, 1])"
proof -
  let ?s = "mk_state [mk_proc 0 [Ptr [mk_pte True False 0 1, mk_pte True False 1 1], Null],
                mk_proc 1 [Ptr [mk_pte True False 0 1, mk_pte True True 2 1], Null]] 0 [1]
        no_tlb 0 [2, 1, 1]"
  let ?p = "mk_pte True False 1 1"
  have h1: "wf_state cfg2 ?s" by code_simp
  have h2: "RW_READ cfg2 \<noteq> RW_WRITE cfg2" by code_simp
  have h3: "pte_at cfg2 (ptbr_table ?s) 1 = Some ?p" by code_simp
  have h4: "pte.valid ?p" by code_simp
  have h5: "private ?p \<noteq> 0" by code_simp
  have h6: "mapcounts ?s ! pfn ?p = 1" by code_simp
  have h7: "\<forall>i < pfn ?p. mapcounts ?s ! i \<noteq> 0" by (simp add: mk_pte_def mk_state_def)
  have e: "mapcounts ?s = [2, 1, 1]" by code_simp
  from handle_page_fault_sole_owner [OF h1 h2 h3 h4 h5 h6 h7] h1 h2 h3 e
  show ?thesis by simp
qed

subsection \<open>The loops of switch_process\<close>

lemma flush_loop_length [simp]: "length (flush_loop t is) = length t"
  by (induction "is" arbitrary: t) auto

lemma flush_loop_nth:
  "\<forall>i \<in> set is. i < length t \<Longrightarrow> k < length t \<Longrightarrow>
   flush_loop t is ! k =
     (if k \<in> set is \<and> tlb_entry.valid (t ! k) then (t ! k)\<lparr>tlb_entry.valid := False\<rparr> else t ! k)"
proof (induction "is" arbitrary: t)
  case Nil
  then show ?case by simp
next
  case (Cons i "is")
  show ?case
  proof (cases "tlb_entry.valid (t ! i)")
    case True
    let ?t = "t[i := (t ! i)\<lparr>tlb_entry.valid := False\<rparr>]"
    have "flush_loop ?t is ! k =
        (if k \<in> set is \<and> tlb_entry.valid (?t ! k) then (?t ! k)\<lparr>tlb_entry.valid := False\<rparr> else ?t ! k)"
      using Cons.prems by (intro Cons.IH) auto
    with True Cons.prems show ?thesis by (auto simp: nth_list_update)
  next
    case False
    with Cons show ?thesis by auto
  qed
qed

lemma flush_loop_all:
  assumes "n \<le> length t" "k < length t"
  shows "k < n \<longrightarrow> \<not> tlb_entry.valid (flush_loop t [0..<n] ! k)"
    and "vpn (flush_loop t [0..<n] ! k) = vpn (t ! k)"
    and "tlb_entry.pfn (flush_loop t [0..<n] ! k) = tlb_entry.pfn (t ! k)"
  using assms flush_loop_nth [of "[0..<n]" t k] by auto

lemma lookup_loop_invalid:
  "\<forall>i \<in> set is. \<not> tlb_entry.valid (t ! i) \<Longrightarrow> lookup_loop t v is = None"
  by (induction "is") auto

lemma flushed_tlb:
  assumes "n \<le> length t"
  shows "\<forall>k < n. \<not> tlb_entry.valid (flush_loop t [0..<n] ! k)"
    and "lookup_loop (flush_loop t [0..<n]) v [0..<n] = None"
proof -
  show a: "\<forall>k < n. \<not> tlb_entry.valid (flush_loop t [0..<n] ! k)"
    using flush_loop_all(1) [OF assms] assms by auto
  then show "lookup_loop (flush_loop t [0..<n]) v [0..<n] = None"
    by (intro lookup_loop_invalid) auto
qed

lemma find_pid_Some:
  "find_pid ps q n = Some pos \<Longrightarrow> pos \<in> set q \<and> pid (ps ! pos) = n"
  by (induction q) (auto split: if_splits)

lemma find_pid_None: "find_pid ps q n = None \<longleftrightarrow> (\<forall>a \<in> set q. pid (ps ! a) \<noteq> n)"
  by (induction q) auto

lemma pte_copy_eq:
  "pte.valid p \<Longrightarrow>
   \<lparr>pte.valid = True, writable = False, pfn = pfn p, private = private p\<rparr> = p\<lparr>writable := False\<rparr>"
  by (cases p) simp

text \<open>
  The inner loop when the child's pointer is a directory: entry by entry,
  the parent keeps \<open>share\<close> of its entry and the child's entry becomes
  \<open>inherit\<close> of the parent's entry and its own.
\<close>

lemma copy_ptes_pointwise:
  assumes "distinct js" and "\<forall>j \<in> set js. j < length pd \<and> j < length cd"
    and "\<forall>j \<in> set js. pte.valid (pd ! j) \<longrightarrow> pfn (pd ! j) < NR_PAGEFRAMES cfg"
    and "length mc = NR_PAGEFRAMES cfg"
  shows "\<exists>pd' cd' mc'. copy_ptes cfg js pd (Ptr cd) mc = Inr (pd', Ptr cd', mc') \<and>
           length pd' = length pd \<and> length cd' = length cd \<and> length mc' = length mc \<and>
           (\<forall>j < length pd. pd' ! j = (if j \<in> set js then share (pd ! j) else pd ! j)) \<and>
           (\<forall>j < length cd. cd' ! j = (if j \<in> set js then inherit (pd ! j) (cd ! j) else cd ! j)) \<and>
           (\<forall>f < length mc. mc' ! f =
               mc ! f + of_nat (length (filter (\<lambda>j. pte.valid (pd ! j) \<and> pfn (pd ! j) = f) js)))"
  using assms
proof (induction js arbitrary: pd cd mc)
  case Nil
  then show ?case by simp
next
  case (Cons j js)
  show ?case
  proof (cases "pte.valid (pd ! j)")
    case False
    from Cons.prems have "\<exists>pd' cd' mc'. copy_ptes cfg js pd (Ptr cd) mc = Inr (pd', Ptr cd', mc') \<and>
           length pd' = length pd \<and> length cd' = length cd \<and> length mc' = length mc \<and>
           (\<forall>j < length pd. pd' ! j = (if j \<in> set js then share (pd ! j) else pd ! j)) \<and>
           (\<forall>j < length cd. cd' ! j = (if j \<in> set js then inherit (pd ! j) (cd ! j) else cd ! j)) \<and>
           (\<forall>f < length mc. mc' ! f =
               mc ! f + of_nat (length (filter (\<lambda>j. pte.valid (pd ! j) \<and> pfn (pd ! j) = f) js)))"
      by (intro Cons.IH) auto
    then obtain pd' cd' mc' where r: "copy_ptes cfg js pd (Ptr cd) mc = Inr (pd', Ptr cd', mc')"
      "length pd' = length pd" "length cd' = length cd" "length mc' = length mc"
      "\<forall>j < length pd. pd' ! j = (if j \<in> set js then share (pd ! j) else pd ! j)"
      "\<forall>j < length cd. cd' ! j = (if j \<in> set js then inherit (pd ! j) (cd ! j) else cd ! j)"
      "\<forall>f < length mc. mc' ! f =
               mc ! f + of_nat (length (filter (\<lambda>j. pte.valid (pd ! j) \<and> pfn (pd ! j) = f) js))"
      by blast
    from False r show ?thesis
      by (auto simp: share_def inherit_def)
  next
    case True
    let ?pd = "pd[j := (pd ! j)\<lparr>writable := False\<rparr>]"
    let ?cd = "cd[j := (pd ! j)\<lparr>writable := False\<rparr>]"
    let ?g = "pfn (pd ! j)"
    let ?mc = "mc[?g := mc ! ?g + 1]"
    from Cons.prems have jn: "j \<notin> set js" "j < length pd" "j < length cd" by auto
    from Cons.prems True have g: "?g < NR_PAGEFRAMES cfg" by auto
    have same: "\<And>k. k \<in> set js \<Longrightarrow> ?pd ! k = pd ! k" using jn by (auto simp: nth_list_update)
    have "\<exists>pd' cd' mc'. copy_ptes cfg js ?pd (Ptr ?cd) ?mc = Inr (pd', Ptr cd', mc') \<and>
           length pd' = length ?pd \<and> length cd' = length ?cd \<and> length mc' = length ?mc \<and>
           (\<forall>j < length ?pd. pd' ! j = (if j \<in> set js then share (?pd ! j) else ?pd ! j)) \<and>
           (\<forall>j < length ?cd. cd' ! j = (if j \<in> set js then inherit (?pd ! j) (?cd ! j) else ?cd ! j)) \<and>
           (\<forall>f < length ?mc. mc' ! f =
               ?mc ! f + of_nat (length (filter (\<lambda>j. pte.valid (?pd ! j) \<and> pfn (?pd ! j) = f) js)))"
      using Cons.prems same by (intro Cons.IH) auto
    then obtain pd' cd' mc' where r: "copy_ptes cfg js ?pd (Ptr ?cd) ?mc = Inr (pd', Ptr cd', mc')"
      "length pd' = length pd" "length cd' = length cd" "length mc' = length mc"
      "\<forall>j < length pd. pd' ! j = (if j \<in> set js then share (?pd ! j) else ?pd ! j)"
      "\<forall>j < length cd. cd' ! j = (if j \<in> set js then inherit (?pd ! j) (?cd ! j) else ?cd ! j)"
      "\<forall>f < length mc. mc' ! f =
               ?mc ! f + of_nat (length (filter (\<lambda>j. pte.valid (?pd ! j) \<and> pfn (?pd ! j) = f) js))"
      by auto
    have filt: "\<And>f. filter (\<lambda>j. pte.valid (?pd ! j) \<and> pfn (?pd ! j) = f) js
                 = filter (\<lambda>j. pte.valid (pd ! j) \<and> pfn (pd ! j) = f) js"
      by (rule filter_cong) (auto simp: same)
    have ev: "copy_ptes cfg (j # js) pd (Ptr cd) mc = Inr (pd', Ptr cd', mc')"
      using True g jn r(1) by (simp add: Let_def pte_copy_eq)
    have a: "\<forall>k < length pd. pd' ! k = (if k \<in> set (j # js) then share (pd ! k) else pd ! k)"
      using r(5) jn True same by (auto simp: share_def nth_list_update)
    have b: "\<forall>k < length cd. cd' ! k = (if k \<in> set (j # js) then inherit (pd ! k) (cd ! k) else cd ! k)"
      using r(6) jn True same by (auto simp: inherit_def nth_list_update)
    have c: "\<forall>f < length mc. mc' ! f =
               mc ! f + of_nat (length (filter (\<lambda>j. pte.valid (pd ! j) \<and> pfn (pd ! j) = f) (j # js)))"
      using r(7) True g Cons.prems(4) unfolding filt by (auto simp: nth_list_update)
    from ev r(2,3,4) a b c show ?thesis by blast
  qed
qed

lemma filter_nth_upt:
  "length (filter (\<lambda>j. P (xs ! j)) [0..<length xs]) = length (filter P xs)"
proof -
  have "filter P (map (\<lambda>j. xs ! j) [0..<length xs]) = map (\<lambda>j. xs ! j) (filter (P \<circ> (\<lambda>j. xs ! j)) [0..<length xs])"
    by (rule filter_map)
  then have "length (filter P xs) = length (filter (P \<circ> (\<lambda>j. xs ! j)) [0..<length xs])"
    by (simp add: map_nth)
  then show ?thesis by (simp add: comp_def)
qed

lemma copy_ptes_full:
  assumes wd: "wf_directory cfg pd" and cd: "length cd = NR_PTES_PER_PAGE cfg"
    and mc: "length mc = NR_PAGEFRAMES cfg"
  shows "\<exists>mc'. copy_ptes cfg [0..<NR_PTES_PER_PAGE cfg] pd (Ptr cd) mc
                  = Inr (map share pd, Ptr (map2 inherit pd cd), mc') \<and>
           length mc' = length mc \<and>
           (\<forall>f < NR_PAGEFRAMES cfg. mc' ! f = mc ! f + of_nat (dir_refs f pd))"
proof -
  let ?N = "NR_PTES_PER_PAGE cfg"
  from wd have len: "length pd = ?N" and rng: "\<forall>j < ?N. pte.valid (pd ! j) \<longrightarrow> pfn (pd ! j) < NR_PAGEFRAMES cfg"
    by (auto simp: wf_directory_def)
  have "\<exists>pd' cd' mc'. copy_ptes cfg [0..<?N] pd (Ptr cd) mc = Inr (pd', Ptr cd', mc') \<and>
           length pd' = length pd \<and> length cd' = length cd \<and> length mc' = length mc \<and>
           (\<forall>j < length pd. pd' ! j = (if j \<in> set [0..<?N] then share (pd ! j) else pd ! j)) \<and>
           (\<forall>j < length cd. cd' ! j = (if j \<in> set [0..<?N] then inherit (pd ! j) (cd ! j) else cd ! j)) \<and>
           (\<forall>f < length mc. mc' ! f =
               mc ! f + of_nat (length (filter (\<lambda>j. pte.valid (pd ! j) \<and> pfn (pd ! j) = f) [0..<?N])))"
    using len cd rng mc by (intro copy_ptes_pointwise) auto
  then obtain pd' cd' mc' where r: "copy_ptes cfg [0..<?N] pd (Ptr cd) mc = Inr (pd', Ptr cd', mc')"
      "length pd' = length pd" "length cd' = length cd" "length mc' = length mc"
      "\<forall>j < length pd. pd' ! j = (if j \<in> set [0..<?N] then share (pd ! j) else pd ! j)"
      "\<forall>j < length cd. cd' ! j = (if j \<in> set [0..<?N] then inherit (pd ! j) (cd ! j) else cd ! j)"
      "\<forall>f < length mc. mc' ! f =
               mc ! f + of_nat (length (filter (\<lambda>j. pte.valid (pd ! j) \<and> pfn (pd ! j) = f) [0..<?N]))"
    by blast
  have a: "pd' = map share pd"
    using r(2,5) len by (intro nth_equalityI) auto
  have b: "cd' = map2 inherit pd cd"
    using r(3,6) len cd by (intro nth_equalityI) auto
  have c: "\<forall>f < NR_PAGEFRAMES cfg. mc' ! f = mc ! f + of_nat (dir_refs f pd)"
    using r(7) mc filter_nth_upt [of "\<lambda>p. pte.valid p \<and> pfn p = _" pd] len
    by (simp add: dir_refs_def)
  from r(1,4) a b c show ?thesis by blast
qed

text \<open>
  The outer loop when the parent's table is well formed, the child's
  pointers at the slots visited are null and the fresh blocks are
  zero-filled.
\<close>

lemma map2_replicate:
  "length xs = n \<Longrightarrow> map2 g xs (replicate n c) = map (\<lambda>x. g x c) xs"
  by (intro nth_equalityI) auto

lemma map_nth_upt: "map (\<lambda>i. g (xs ! i)) [0..<length xs] = map g xs"
  by (intro nth_equalityI) auto

lemma copy_dirs_pointwise:
  assumes "distinct is" and "\<forall>i \<in> set is. i < length prev \<and> i < length ch"
    and "\<forall>i \<in> set is. case prev ! i of Null \<Rightarrow> True | Ptr d \<Rightarrow> wf_directory cfg d | Wild \<Rightarrow> False"
    and "\<forall>i \<in> set is. ch ! i = Null"
    and "length mc = NR_PAGEFRAMES cfg" and zf: "zero_filled al"
  shows "\<exists>prev' ch' mc'. copy_dirs cfg al a is prev ch mc = Inr (prev', ch', mc') \<and>
           length prev' = length prev \<and> length ch' = length ch \<and> length mc' = length mc \<and>
           (\<forall>i < length prev. prev' ! i =
               (if i \<in> set is then map_ptr (map share) (prev ! i) else prev ! i)) \<and>
           (\<forall>i < length ch. ch' ! i =
               (if i \<in> set is then map_ptr (map (\<lambda>p. inherit p zero_pte)) (prev ! i) else ch ! i)) \<and>
           (\<forall>f < NR_PAGEFRAMES cfg. mc' ! f =
               mc ! f + of_nat (sum_list (map (\<lambda>i. slot_refs f (prev ! i)) is)))"
  using assms(1-5)
proof (induction "is" arbitrary: prev ch mc)
  case Nil
  then show ?case by simp
next
  case (Cons i "is")
  from Cons.prems have ii: "i \<notin> set is" "i < length prev" "i < length ch" "ch ! i = Null" by auto
  have neq: "\<And>k. k \<in> set is \<Longrightarrow> i \<noteq> k" using ii by auto
  show ?case
  proof (cases "prev ! i")
    case Wild
    with Cons.prems(3) show ?thesis by auto
  next
    case Null
    have "\<exists>prev' ch' mc'. copy_dirs cfg al a is prev ch mc = Inr (prev', ch', mc') \<and>
           length prev' = length prev \<and> length ch' = length ch \<and> length mc' = length mc \<and>
           (\<forall>i < length prev. prev' ! i =
               (if i \<in> set is then map_ptr (map share) (prev ! i) else prev ! i)) \<and>
           (\<forall>i < length ch. ch' ! i =
               (if i \<in> set is then map_ptr (map (\<lambda>p. inherit p zero_pte)) (prev ! i) else ch ! i)) \<and>
           (\<forall>f < NR_PAGEFRAMES cfg. mc' ! f =
               mc ! f + of_nat (sum_list (map (\<lambda>i. slot_refs f (prev ! i)) is)))"
      using Cons.prems by (intro Cons.IH) auto
    then obtain prev' ch' mc' where r: "copy_dirs cfg al a is prev ch mc = Inr (prev', ch', mc')"
      "length prev' = length prev" "length ch' = length ch" "length mc' = length mc"
      "\<forall>i < length prev. prev' ! i =
               (if i \<in> set is then map_ptr (map share) (prev ! i) else prev ! i)"
      "\<forall>i < length ch. ch' ! i =
               (if i \<in> set is then map_ptr (map (\<lambda>p. inherit p zero_pte)) (prev ! i) else ch ! i)"
      "\<forall>f < NR_PAGEFRAMES cfg. mc' ! f =
               mc ! f + of_nat (sum_list (map (\<lambda>i. slot_refs f (prev ! i)) is))"
      by blast
    have ev: "copy_dirs cfg al a (i # is) prev ch mc = Inr (prev', ch', mc')"
      using Null r(1) by simp
    have x: "\<forall>k < length prev. prev' ! k =
               (if k \<in> set (i # is) then map_ptr (map share) (prev ! k) else prev ! k)"
      using r(5) Null by (auto simp: map_ptr_def)
    have y: "\<forall>k < length ch. ch' ! k =
               (if k \<in> set (i # is) then map_ptr (map (\<lambda>p. inherit p zero_pte)) (prev ! k) else ch ! k)"
      using r(6) Null ii by (auto simp: map_ptr_def)
    have z: "\<forall>f < NR_PAGEFRAMES cfg. mc' ! f =
               mc ! f + of_nat (sum_list (map (\<lambda>i. slot_refs f (prev ! i)) (i # is)))"
      using r(7) Null by (simp add: slot_refs_def)
    from ev r(2,3,4) x y z show ?thesis by blast
  next
    case (Ptr pd)
    from Cons.prems Ptr have wd: "wf_directory cfg pd" by auto
    then have pdl: "length pd = NR_PTES_PER_PAGE cfg" by (simp add: wf_directory_def)
    have fd: "fresh_directory cfg al a i = zero_directory cfg" by (rule fresh_directory_zero [OF zf])
    have cdl: "length (zero_directory cfg) = NR_PTES_PER_PAGE cfg" by simp
    from copy_ptes_full [OF wd cdl Cons.prems(5)] obtain mc1
      where c1: "copy_ptes cfg [0..<NR_PTES_PER_PAGE cfg] pd (Ptr (zero_directory cfg)) mc
                  = Inr (map share pd, Ptr (map2 inherit pd (zero_directory cfg)), mc1)"
        and l1: "length mc1 = length mc"
        and m1: "\<forall>f < NR_PAGEFRAMES cfg. mc1 ! f = mc ! f + of_nat (dir_refs f pd)"
      by blast
    have inh: "map2 inherit pd (zero_directory cfg) = map (\<lambda>p. inherit p zero_pte) pd"
      unfolding zero_directory_def using pdl by (rule map2_replicate)
    let ?prev = "prev[i := Ptr (map share pd)]"
    let ?ch = "ch[i := Ptr (map (\<lambda>p. inherit p zero_pte) pd)]"
    have same: "\<And>k. k \<in> set is \<Longrightarrow> ?prev ! k = prev ! k \<and> ?ch ! k = ch ! k"
      using neq by (simp add: nth_list_update)
    have "\<exists>prev' ch' mc'. copy_dirs cfg al a is ?prev ?ch mc1 = Inr (prev', ch', mc') \<and>
           length prev' = length ?prev \<and> length ch' = length ?ch \<and> length mc' = length mc1 \<and>
           (\<forall>i < length ?prev. prev' ! i =
               (if i \<in> set is then map_ptr (map share) (?prev ! i) else ?prev ! i)) \<and>
           (\<forall>i < length ?ch. ch' ! i =
               (if i \<in> set is then map_ptr (map (\<lambda>p. inherit p zero_pte)) (?prev ! i) else ?ch ! i)) \<and>
           (\<forall>f < NR_PAGEFRAMES cfg. mc' ! f =
               mc1 ! f + of_nat (sum_list (map (\<lambda>i. slot_refs f (?prev ! i)) is)))"
      using Cons.prems same l1 by (intro Cons.IH) auto
    then obtain prev' ch' mc' where r: "copy_dirs cfg al a is ?prev ?ch mc1 = Inr (prev', ch', mc')"
      "length prev' = length prev" "length ch' = length ch" "length mc' = length mc"
      "\<forall>i < length prev. prev' ! i =
               (if i \<in> set is then map_ptr (map share) (?prev ! i) else ?prev ! i)"
      "\<forall>i < length ch. ch' ! i =
               (if i \<in> set is then map_ptr (map (\<lambda>p. inherit p zero_pte)) (?prev ! i) else ?ch ! i)"
      "\<forall>f < NR_PAGEFRAMES cfg. mc' ! f =
               mc1 ! f + of_nat (sum_list (map (\<lambda>i. slot_refs f (?prev ! i)) is))"
      using l1 by auto
    have ev: "copy_dirs cfg al a (i # is) prev ch mc = Inr (prev', ch', mc')"
      using Ptr c1 r(1) ii(4) fd inh by simp
    have x: "\<forall>k < length prev. prev' ! k =
               (if k \<in> set (i # is) then map_ptr (map share) (prev ! k) else prev ! k)"
      using r(5) Ptr ii neq by (auto simp: nth_list_update map_ptr_def)
    have y: "\<forall>k < length ch. ch' ! k =
               (if k \<in> set (i # is) then map_ptr (map (\<lambda>p. inherit p zero_pte)) (prev ! k) else ch ! k)"
      using r(6) Ptr ii neq by (auto simp: nth_list_update map_ptr_def)
    have sums: "\<And>f. map (\<lambda>i. slot_refs f (?prev ! i)) is = map (\<lambda>i. slot_refs f (prev ! i)) is"
      using same by simp
    have z: "\<forall>f < NR_PAGEFRAMES cfg. mc' ! f =
               mc ! f + of_nat (sum_list (map (\<lambda>i. slot_refs f (prev ! i)) (i # is)))"
      using r(7) m1 Ptr unfolding sums by (simp add: slot_refs_def)
    from ev r(2,3,4) x y z show ?thesis by blast
  qed
qed

lemma copy_dirs_full:
  assumes wt: "wf_table cfg prev" and mc: "length mc = NR_PAGEFRAMES cfg" and zf: "zero_filled al"
  shows "\<exists>mc'. copy_dirs cfg al a [0..<NR_PTES_PER_PAGE cfg] prev (fresh_table cfg al a) mc
                  = Inr (share_table prev, child_table prev, mc') \<and>
           length mc' = length mc \<and>
           (\<forall>f < NR_PAGEFRAMES cfg. mc' ! f = mc ! f + of_nat (table_refs f prev))"
proof -
  let ?N = "NR_PTES_PER_PAGE cfg"
  let ?ch = "zero_pagetable cfg"
  have ft: "fresh_table cfg al a = ?ch" by (rule fresh_table_zero [OF zf])
  from wt have len: "length prev = ?N"
    and slots: "\<forall>i < ?N. case prev ! i of Null \<Rightarrow> True | Ptr d \<Rightarrow> wf_directory cfg d | Wild \<Rightarrow> False"
    by (auto simp: wf_table_def)
  have chl: "length ?ch = ?N" and chn: "\<And>i. i < ?N \<Longrightarrow> ?ch ! i = Null"
    by (simp_all add: zero_pagetable_def)
  have "\<exists>prev' ch' mc'. copy_dirs cfg al a [0..<?N] prev ?ch mc = Inr (prev', ch', mc') \<and>
           length prev' = length prev \<and> length ch' = length ?ch \<and> length mc' = length mc \<and>
           (\<forall>i < length prev. prev' ! i =
               (if i \<in> set [0..<?N] then map_ptr (map share) (prev ! i) else prev ! i)) \<and>
           (\<forall>i < length ?ch. ch' ! i =
               (if i \<in> set [0..<?N] then map_ptr (map (\<lambda>p. inherit p zero_pte)) (prev ! i) else ?ch ! i)) \<and>
           (\<forall>f < NR_PAGEFRAMES cfg. mc' ! f =
               mc ! f + of_nat (sum_list (map (\<lambda>i. slot_refs f (prev ! i)) [0..<?N])))"
    using len chl chn slots mc zf
    by (intro copy_dirs_pointwise) auto
  then obtain prev' ch' mc' where r: "copy_dirs cfg al a [0..<?N] prev ?ch mc = Inr (prev', ch', mc')"
      "length prev' = length prev" "length ch' = length ?ch" "length mc' = length mc"
      "\<forall>i < length prev. prev' ! i =
               (if i \<in> set [0..<?N] then map_ptr (map share) (prev ! i) else prev ! i)"
      "\<forall>i < length ?ch. ch' ! i =
               (if i \<in> set [0..<?N] then map_ptr (map (\<lambda>p. inherit p zero_pte)) (prev ! i) else ?ch ! i)"
      "\<forall>f < NR_PAGEFRAMES cfg. mc' ! f =
               mc ! f + of_nat (sum_list (map (\<lambda>i. slot_refs f (prev ! i)) [0..<?N]))"
    by blast
  have x: "prev' = share_table prev"
    using r(2,5) len by (intro nth_equalityI) (auto simp: share_table_def)
  have y: "ch' = child_table prev"
    using r(3,6) len chl by (intro nth_equalityI) (auto simp: child_table_def)
  have z: "\<forall>f < NR_PAGEFRAMES cfg. mc' ! f = mc ! f + of_nat (table_refs f prev)"
    using r(7) map_nth_upt [of "slot_refs _" prev] len by (simp add: table_refs_def)
  from r(1,4) x y z ft show ?thesis by simp
qed
subsection \<open>switch_process\<close>

lemma switch_process_found:
  "find_pid (procs s) (processes s) n = Some pos \<Longrightarrow>
   switch_process cfg al s n =
     Inr (s\<lparr>processes := remove1 pos (processes s) @ [current s], current := pos, ptbr := pos,
            tlb := flush_loop (tlb s) [0..<NR_TLB_ENTRIES cfg]\<rparr>)"
  by (simp add: switch_process_def)

lemma switch_process_tlb:
  assumes "switch_process cfg al s n = Inr s'"
  shows "tlb s' = flush_loop (tlb s) [0..<NR_TLB_ENTRIES cfg]"
  using assms
  by (auto simp: switch_process_def Let_def split: option.splits sum.splits prod.splits)

text \<open>
  The fork when every block that \<^verbatim>\<open>malloc\<close> returns is zero-filled: the
  parent's table becomes \<open>share_table\<close> of it, the child's table
  \<open>child_table\<close> of it, and each counter grows by the number of the parent's
  entries that name its frame.
\<close>

lemma switch_process_fork:
  assumes nf: "find_pid (procs s) (processes s) n = None" and wf: "wf_state cfg s"
    and zf: "zero_filled al"
  shows "\<exists>mc'. switch_process cfg al s n =
           Inr (s\<lparr>procs := (procs s)[current s := (procs s ! current s)
                               \<lparr>pagetable := share_table (pagetable (procs s ! current s))\<rparr>]
                             @ [\<lparr>pid = n, pagetable = child_table (pagetable (procs s ! current s))\<rparr>],
                  processes := processes s @ [current s],
                  current := length (procs s),
                  ptbr := length (procs s),
                  mapcounts := mc',
                  tlb := flush_loop (tlb s) [0..<NR_TLB_ENTRIES cfg]\<rparr>) \<and>
           length mc' = NR_PAGEFRAMES cfg \<and>
           (\<forall>f < NR_PAGEFRAMES cfg. mc' ! f =
               mapcounts s ! f + of_nat (table_refs f (pagetable (procs s ! current s))))"
proof -
  from wf have wt: "wf_table cfg (pagetable (procs s ! current s))"
    and mc: "length (mapcounts s) = NR_PAGEFRAMES cfg"
    by (auto simp: wf_state_def)
  from copy_dirs_full [OF wt mc zf, of "length (procs s)"] obtain mc' where
    r: "copy_dirs cfg al (length (procs s)) [0..<NR_PTES_PER_PAGE cfg]
          (pagetable (procs s ! current s)) (fresh_table cfg al (length (procs s))) (mapcounts s)
        = Inr (share_table (pagetable (procs s ! current s)),
               child_table (pagetable (procs s ! current s)), mc')"
      "length mc' = length (mapcounts s)"
      "\<forall>f < NR_PAGEFRAMES cfg. mc' ! f =
               mapcounts s ! f + of_nat (table_refs f (pagetable (procs s ! current s)))"
    by blast
  have "switch_process cfg al s n =
           Inr (s\<lparr>procs := (procs s)[current s := (procs s ! current s)
                               \<lparr>pagetable := share_table (pagetable (procs s ! current s))\<rparr>]
                             @ [\<lparr>pid = n, pagetable = child_table (pagetable (procs s ! current s))\<rparr>],
                  processes := processes s @ [current s],
                  current := length (procs s),
                  ptbr := length (procs s),
                  mapcounts := mc',
                  tlb := flush_loop (tlb s) [0..<NR_TLB_ENTRIES cfg]\<rparr>)"
    using nf r(1) by (simp add: switch_process_def Let_def)
  with r(2,3) mc show ?thesis by auto
qed

lemma switch_process_returns:
  assumes "find_pid (procs s) (processes s) n \<noteq> None \<or> (wf_state cfg s \<and> zero_filled al)"
  shows "\<exists>s'. switch_process cfg al s n = Inr s'"
proof (cases "find_pid (procs s) (processes s) n")
  case (Some pos)
  then show ?thesis by (simp add: switch_process_found)
next
  case None
  with assms have "wf_state cfg s" "zero_filled al" by auto
  from switch_process_fork [OF None this] show ?thesis by blast
qed

text \<open>
  Claim C7: after a call of \<^verbatim>\<open>switch_process\<close>, in the branch that finds the
  pid in the ready queue as in the fork branch, every slot of the cache that
  \<^verbatim>\<open>lookup_tlb\<close> scans is invalid, so that the lookup misses for every page;
  when \<^verbatim>\<open>NR_TLB_ENTRIES\<close> is the size of the array, every entry of the array
  is invalid.  This holds of every call that returns, whatever \<^verbatim>\<open>malloc\<close>
  left in the blocks of the fork.  The call does return when the pid is
  found, and also, in a well-formed state, when it forks and the blocks
  that \<^verbatim>\<open>malloc\<close> returns are zero-filled.
\<close>

theorem switch_process_flushes_tlb:
  assumes len: "NR_TLB_ENTRIES cfg \<le> length (tlb s)"
  shows "(\<forall>s'. switch_process cfg al s n = Inr s' \<longrightarrow>
            (\<forall>k < NR_TLB_ENTRIES cfg. \<not> tlb_entry.valid (tlb s' ! k)) \<and>
            (\<forall>v. lookup_tlb cfg s' v = None) \<and>
            (NR_TLB_ENTRIES cfg = length (tlb s) \<longrightarrow> (\<forall>e \<in> set (tlb s'). \<not> tlb_entry.valid e))) \<and>
         (find_pid (procs s) (processes s) n \<noteq> None \<or> (wf_state cfg s \<and> zero_filled al) \<longrightarrow>
            (\<exists>s'. switch_process cfg al s n = Inr s'))"
proof -
  have a: "(\<forall>k < NR_TLB_ENTRIES cfg. \<not> tlb_entry.valid (tlb s' ! k)) \<and>
            (\<forall>v. lookup_tlb cfg s' v = None) \<and>
            (NR_TLB_ENTRIES cfg = length (tlb s) \<longrightarrow> (\<forall>e \<in> set (tlb s'). \<not> tlb_entry.valid e))"
    if ev: "switch_process cfg al s n = Inr s'" for s'
  proof -
    note t = switch_process_tlb [OF ev]
    note fl = flushed_tlb [OF len]
    have x: "\<forall>k < NR_TLB_ENTRIES cfg. \<not> tlb_entry.valid (tlb s' ! k)"
      unfolding t using fl(1) by blast
    have y: "\<forall>v. lookup_tlb cfg s' v = None"
      unfolding lookup_tlb_def t using fl(2) by simp
    have z: "\<forall>e \<in> set (tlb s'). \<not> tlb_entry.valid e" if "NR_TLB_ENTRIES cfg = length (tlb s)"
      unfolding t using fl(1) that by (auto simp: in_set_conv_nth)
    from x y z show ?thesis by blast
  qed
  have b: "\<exists>s'. switch_process cfg al s n = Inr s'"
    if "find_pid (procs s) (processes s) n \<noteq> None \<or> (wf_state cfg s \<and> zero_filled al)"
    using that by (rule switch_process_returns)
  from a b show ?thesis by blast
qed

text \<open>
  Claim C10: when the pid is that of a process in the ready queue,
  \<^verbatim>\<open>switch_process\<close> leaves every process object, hence every page table, and
  the whole of \<^verbatim>\<open>mapcounts\<close> unchanged.  It changes \<^verbatim>\<open>current\<close> and \<^verbatim>\<open>ptbr\<close>,
  which both point to the first queued process with that pid, the ready
  queue, which loses that process and gains the old current one at its
  tail, and the valid bits of the cache; the cached page and frame numbers
  and the insertion cursor stay.
\<close>

theorem switch_process_existing_frame:
  assumes q: "a \<in> set (processes s)" "pid (procs s ! a) = n"
    and len: "NR_TLB_ENTRIES cfg \<le> length (tlb s)"
  shows "\<exists>s'. switch_process cfg al s n = Inr s' \<and>
           procs s' = procs s \<and> mapcounts s' = mapcounts s \<and> index s' = index s \<and>
           current s' \<in> set (processes s) \<and> pid (procs s ! current s') = n \<and>
           ptbr s' = current s' \<and>
           processes s' = remove1 (current s') (processes s) @ [current s] \<and>
           length (tlb s') = length (tlb s) \<and>
           (\<forall>k < length (tlb s). vpn (tlb s' ! k) = vpn (tlb s ! k) \<and>
                                  tlb_entry.pfn (tlb s' ! k) = tlb_entry.pfn (tlb s ! k))"
proof -
  from q obtain pos where pos: "find_pid (procs s) (processes s) n = Some pos"
    using find_pid_None [of "procs s" "processes s" n] by (cases "find_pid (procs s) (processes s) n") auto
  note p = find_pid_Some [OF pos]
  show ?thesis
    unfolding switch_process_found [OF pos]
    using p len flush_loop_all(2,3) [OF len] by simp
qed

subsection \<open>The tables after a fork\<close>

lemma pte_at_share_table:
  assumes "wf_table cfg pt"
  shows "pte_at cfg (share_table pt) v = map_option share (pte_at cfg pt v)"
proof (cases "unat v div NR_PTES_PER_PAGE cfg < NR_PTES_PER_PAGE cfg")
  case True
  from assms have len: "length pt = NR_PTES_PER_PAGE cfg" by (simp add: wf_table_def)
  show ?thesis
  proof (cases "pt ! (unat v div NR_PTES_PER_PAGE cfg)")
    case (Ptr d)
    from wf_table_dir(2) [OF assms True Ptr] True
    have "unat v mod NR_PTES_PER_PAGE cfg < length d" by simp
    with True len Ptr show ?thesis by (simp add: pte_at_def share_table_def map_ptr_def)
  qed (use True len in \<open>simp_all add: pte_at_def share_table_def map_ptr_def\<close>)
qed (simp add: pte_at_def)

lemma pte_at_child_table:
  assumes "wf_table cfg pt"
  shows "pte_at cfg (child_table pt) v = map_option (\<lambda>p. inherit p zero_pte) (pte_at cfg pt v)"
proof (cases "unat v div NR_PTES_PER_PAGE cfg < NR_PTES_PER_PAGE cfg")
  case True
  from assms have len: "length pt = NR_PTES_PER_PAGE cfg" by (simp add: wf_table_def)
  show ?thesis
  proof (cases "pt ! (unat v div NR_PTES_PER_PAGE cfg)")
    case (Ptr d)
    from wf_table_dir(2) [OF assms True Ptr] True
    have "unat v mod NR_PTES_PER_PAGE cfg < length d" by simp
    with True len Ptr show ?thesis by (simp add: pte_at_def child_table_def map_ptr_def)
  qed (use True len in \<open>simp_all add: pte_at_def child_table_def map_ptr_def\<close>)
qed (simp add: pte_at_def)

lemma dir_refs_share [simp]: "dir_refs f (map share d) = dir_refs f d"
  by (induction d) (auto simp: dir_refs_def share_def)

lemma dir_refs_inherit [simp]: "dir_refs f (map (\<lambda>p. inherit p zero_pte) d) = dir_refs f d"
  by (induction d) (auto simp: dir_refs_def inherit_def zero_pte_def)

lemma table_refs_share [simp]: "table_refs f (share_table pt) = table_refs f pt"
  by (induction pt)
     (auto simp: table_refs_def share_table_def slot_refs_def map_ptr_def split: dir_ptr.split)

lemma table_refs_child [simp]: "table_refs f (child_table pt) = table_refs f pt"
  by (induction pt)
     (auto simp: table_refs_def child_table_def slot_refs_def map_ptr_def split: dir_ptr.split)

text \<open>
  What the fork does when the blocks that \<^verbatim>\<open>malloc\<close> returns are zero-filled
  and no queued process has the pid.  The call returns; the new process has
  the pid, is the current one and the one \<^verbatim>\<open>ptbr\<close> points to, and the parent
  is appended to the ready queue.  For every valid entry \<open>p\<close> of the parent,
  the child has at the same page the entry \<open>p\<close> with the writable bit
  cleared, so the same frame and the same \<^verbatim>\<open>private\<close>, and the parent's own
  entry has its writable bit cleared too.  Where the parent has no valid
  entry the child has none either.  The count of every frame grows by the
  number of the parent's valid entries that name it, and no other process
  object changes.
\<close>

lemma switch_process_fork_zero_filled:
  assumes wf: "wf_state cfg s" and zf: "zero_filled al"
    and new: "\<forall>a \<in> set (processes s). pid (procs s ! a) \<noteq> n"
  shows "\<exists>s'. switch_process cfg al s n = Inr s' \<and>
           current s' = length (procs s) \<and> ptbr s' = length (procs s) \<and>
           length (procs s') = length (procs s) + 1 \<and>
           pid (procs s' ! current s') = n \<and>
           processes s' = processes s @ [current s] \<and>
           (\<forall>v p. pte_at cfg (pagetable (procs s ! current s)) v = Some p \<and> pte.valid p \<longrightarrow>
               pte_at cfg (pagetable (procs s' ! current s')) v = Some (p\<lparr>writable := False\<rparr>) \<and>
               pte_at cfg (pagetable (procs s' ! current s)) v = Some (p\<lparr>writable := False\<rparr>)) \<and>
           (\<forall>v q. pte_at cfg (pagetable (procs s' ! current s')) v = Some q \<and> pte.valid q \<longrightarrow>
               (\<exists>p. pte_at cfg (pagetable (procs s ! current s)) v = Some p \<and> pte.valid p)) \<and>
           (\<forall>f. table_refs f (pagetable (procs s' ! current s'))
                  = table_refs f (pagetable (procs s ! current s))) \<and>
           (\<forall>f < NR_PAGEFRAMES cfg. mapcounts s' ! f =
               mapcounts s ! f + of_nat (table_refs f (pagetable (procs s ! current s)))) \<and>
           (\<forall>a < length (procs s). a \<noteq> current s \<longrightarrow> procs s' ! a = procs s ! a)"
proof -
  let ?prev = "pagetable (procs s ! current s)"
  from new have nf: "find_pid (procs s) (processes s) n = None" by (simp add: find_pid_None)
  from wf have cur: "current s < length (procs s)" and wt: "wf_table cfg ?prev"
    by (auto simp: wf_state_def)
  from switch_process_fork [OF nf wf zf] obtain mc' where
    ev: "switch_process cfg al s n =
           Inr (s\<lparr>procs := (procs s)[current s := (procs s ! current s)\<lparr>pagetable := share_table ?prev\<rparr>]
                             @ [\<lparr>pid = n, pagetable = child_table ?prev\<rparr>],
                  processes := processes s @ [current s],
                  current := length (procs s),
                  ptbr := length (procs s),
                  mapcounts := mc',
                  tlb := flush_loop (tlb s) [0..<NR_TLB_ENTRIES cfg]\<rparr>)"
    and mc: "\<forall>f < NR_PAGEFRAMES cfg. mc' ! f = mapcounts s ! f + of_nat (table_refs f ?prev)"
    by blast
  have child: "\<And>v. pte_at cfg (child_table ?prev) v = map_option (\<lambda>p. inherit p zero_pte) (pte_at cfg ?prev v)"
    by (rule pte_at_child_table [OF wt])
  have parent: "\<And>v. pte_at cfg (share_table ?prev) v = map_option share (pte_at cfg ?prev v)"
    by (rule pte_at_share_table [OF wt])
  show ?thesis
    unfolding ev using cur mc
    by (auto simp add: nth_append child parent share_def inherit_def nth_list_update zero_pte_def)
qed

text \<open>
  Claim C8 says that a fork gives the child, for each valid entry of the
  parent, an entry at the same slot, and the specification adds that the
  child then has exactly as many mappings as the parent.  The code obtains
  the child's process object and its directories from \<^verbatim>\<open>malloc\<close> and
  initialises neither: it tests \<^verbatim>\<open>ptbr->outer_ptes[i]\<close> of the new object
  before anything was stored there, and it writes into a new directory only
  the entries that are valid in the parent.  Process 0 maps page 0 to
  frame 0 and forks process 1.

  When the block of the new process holds a non-null word at
  \<^verbatim>\<open>outer_ptes[0]\<close>, no directory is allocated and the copy of the parent's
  entry is stored through that word: the child's table does not get the
  entry.

  When the block of the new directory holds an old entry at slot 1 (valid,
  writable, frame 2), the child keeps it: it comes out of the fork with two
  mappings where the parent has one, one of them writable, to a frame whose
  count is 0.
\<close>

theorem switch_process_fork_uninitialised:
  "run cfg2 zeroed (init_state cfg2) [Alloc 0 2] =
     Inr (mk_state [mk_proc 0 [Ptr [mk_pte True True 0 1, zero_pte], Null]] 0 [] no_tlb 0 [1, 0, 0]) \<and>
   switch_process cfg2 stale_pointer
     (mk_state [mk_proc 0 [Ptr [mk_pte True True 0 1, zero_pte], Null]] 0 [] no_tlb 0 [1, 0, 0]) 1
     = Inl Wild_Pointer \<and>
   switch_process cfg2 stale_directory
     (mk_state [mk_proc 0 [Ptr [mk_pte True True 0 1, zero_pte], Null]] 0 [] no_tlb 0 [1, 0, 0]) 1
     = Inr (mk_state [mk_proc 0 [Ptr [mk_pte True False 0 1, zero_pte], Null],
                      mk_proc 1 [Ptr [mk_pte True False 0 1, mk_pte True True 2 1], Null]]
              1 [0] no_tlb 0 [2, 0, 0]) \<and>
   table_refs 2 [Ptr [mk_pte True False 0 1, mk_pte True True 2 1], Null] = 1 \<and>
   table_refs 2 [Ptr [mk_pte True True 0 1, zero_pte], Null] = 0"
  by code_simp

subsection \<open>Instances of the claims about switch_process\<close>

text \<open>
  Claim C7 at a fork: process 0 has page 0 on frame 0 and a valid cache entry
  for it; after \<^verbatim>\<open>switch_process(1)\<close> the lookup of page 0 misses.
\<close>

theorem switch_process_flushes_tlb_witness:
  "NR_TLB_ENTRIES cfg2 \<le> length (tlb
     (mk_state [mk_proc 0 [Ptr [mk_pte True True 0 1, zero_pte], Null]] 0 []
        [mk_tlb True 0 0, mk_tlb False 0 0, mk_tlb False 0 0, mk_tlb False 0 0] 1 [1, 0, 0])) \<and>
   wf_state cfg2
     (mk_state [mk_proc 0 [Ptr [mk_pte True True 0 1, zero_pte], Null]] 0 []
        [mk_tlb True 0 0, mk_tlb False 0 0, mk_tlb False 0 0, mk_tlb False 0 0] 1 [1, 0, 0]) \<and>
   zero_filled zeroed \<and>
   lookup_tlb cfg2
     (mk_state [mk_proc 0 [Ptr [mk_pte True True 0 1, zero_pte], Null]] 0 []
        [mk_tlb True 0 0, mk_tlb False 0 0, mk_tlb False 0 0, mk_tlb False 0 0] 1 [1, 0, 0]) 0 = Some 0 \<and>
   (\<exists>s'. switch_process cfg2 zeroed
            (mk_state [mk_proc 0 [Ptr [mk_pte True True 0 1, zero_pte], Null]] 0 []
               [mk_tlb True 0 0, mk_tlb False 0 0, mk_tlb False 0 0, mk_tlb False 0 0] 1 [1, 0, 0]) 1
            = Inr s' \<and>
          \<not> tlb_entry.valid (tlb s' ! 0) \<and>
          lookup_tlb cfg2 s' 0 = None)"
proof -
  let ?s = "mk_state [mk_proc 0 [Ptr [mk_pte True True 0 1, zero_pte], Null]] 0 []
              [mk_tlb True 0 0, mk_tlb False 0 0, mk_tlb False 0 0, mk_tlb False 0 0] 1 [1, 0, 0]"
  have h0: "NR_TLB_ENTRIES cfg2 \<le> length (tlb ?s)" by code_simp
  have h1: "wf_state cfg2 ?s" by code_simp
  have h2: "lookup_tlb cfg2 ?s 0 = Some 0" by code_simp
  have h3: "(0::nat) < NR_TLB_ENTRIES cfg2" by code_simp
  note t = switch_process_flushes_tlb [OF h0, of zeroed 1]
  from t h1 zero_filled_zeroed obtain s' where r: "switch_process cfg2 zeroed ?s 1 = Inr s'"
    by blast
  with t h3 have "\<not> tlb_entry.valid (tlb s' ! 0)" "lookup_tlb cfg2 s' 0 = None" by blast+
  with r h0 h1 h2 zero_filled_zeroed show ?thesis by blast
qed

text \<open>
  Claim C10 at the state after that fork: process 1 is current, process 0 is
  queued, and \<^verbatim>\<open>switch_process(0)\<close> switches back.
\<close>

theorem switch_process_existing_frame_witness:
  "0 \<in> set (processes
     (mk_state [mk_proc 0 [Ptr [mk_pte True False 0 1, zero_pte], Null],
                mk_proc 1 [Ptr [mk_pte True False 0 1, zero_pte], Null]] 1 [0]
        [mk_tlb True 0 0, mk_tlb False 0 0, mk_tlb False 0 0, mk_tlb False 0 0] 1 [2, 0, 0])) \<and>
   (\<exists>s'. switch_process cfg2 zeroed
            (mk_state [mk_proc 0 [Ptr [mk_pte True False 0 1, zero_pte], Null],
                       mk_proc 1 [Ptr [mk_pte True False 0 1, zero_pte], Null]] 1 [0]
               [mk_tlb True 0 0, mk_tlb False 0 0, mk_tlb False 0 0, mk_tlb False 0 0] 1 [2, 0, 0]) 0
            = Inr s' \<and>
          procs s' = [mk_proc 0 [Ptr [mk_pte True False 0 1, zero_pte], Null],
                      mk_proc 1 [Ptr [mk_pte True False 0 1, zero_pte], Null]] \<and>
          mapcounts s' = [2, 0, 0] \<and> current s' = 0 \<and> ptbr s' = 0 \<and> processes s' = [1])"
proof -
  let ?s = "mk_state [mk_proc 0 [Ptr [mk_pte True False 0 1, zero_pte], Null],
                       mk_proc 1 [Ptr [mk_pte True False 0 1, zero_pte], Null]] 1 [0]
               [mk_tlb True 0 0, mk_tlb False 0 0, mk_tlb False 0 0, mk_tlb False 0 0] 1 [2, 0, 0]"
  have h1: "0 \<in> set (processes ?s)" by code_simp
  have h2: "pid (procs ?s ! 0) = 0" by code_simp
  have h3: "NR_TLB_ENTRIES cfg2 \<le> length (tlb ?s)" by code_simp
  have e1: "procs ?s = [mk_proc 0 [Ptr [mk_pte True False 0 1, zero_pte], Null],
                       mk_proc 1 [Ptr [mk_pte True False 0 1, zero_pte], Null]]"
    and e2: "mapcounts ?s = [2, 0, 0]" and e3: "processes ?s = [0]" and e4: "current ?s = 1"
    by (simp_all add: mk_state_def)
  from switch_process_existing_frame [OF h1 h2 h3, of zeroed] obtain s' where
    r: "switch_process cfg2 zeroed ?s 0 = Inr s'" "procs s' = procs ?s" "mapcounts s' = mapcounts ?s"
       "current s' \<in> set (processes ?s)" "ptbr s' = current s'"
       "processes s' = remove1 (current s') (processes ?s) @ [current ?s]"
    by blast
  from r(4) e3 have c: "current s' = 0" by simp
  from r c e1 e2 e3 e4 h1 show ?thesis by simp
qed

subsection \<open>Counting references\<close>

lemma sum_list_update_nat:
  "i < length xs \<Longrightarrow>
   sum_list (map g (xs[i := x])) + g (xs ! i) = sum_list (map g xs) + (g x :: nat)"
proof (induction xs arbitrary: i)
  case Nil
  then show ?case by simp
next
  case (Cons a xs)
  then show ?case by (cases i) auto
qed

lemma dir_refs_sum:
  "dir_refs f d = sum_list (map (\<lambda>p. if pte.valid p \<and> pfn p = f then 1 else 0) d)"
  by (induction d) (auto simp: dir_refs_def)

lemma dir_refs_update:
  "j < length d \<Longrightarrow>
   dir_refs f (d[j := q]) + (if pte.valid (d ! j) \<and> pfn (d ! j) = f then 1 else 0)
     = dir_refs f d + (if pte.valid q \<and> pfn q = f then 1 else 0)"
  unfolding dir_refs_sum by (rule sum_list_update_nat)

lemma dir_refs_zero [simp]: "dir_refs f (zero_directory cfg) = 0"
  by (simp add: dir_refs_def zero_directory_def zero_pte_def)

lemma table_refs_update:
  "i < length pt \<Longrightarrow>
   table_refs f (pt[i := e]) + slot_refs f (pt ! i) = table_refs f pt + slot_refs f e"
  unfolding table_refs_def by (rule sum_list_update_nat)

lemma refs_set_ptbr_table:
  assumes "ptbr s < length (procs s)"
  shows "refs (set_ptbr_table s pt) f + table_refs f (ptbr_table s) = refs s f + table_refs f pt"
  using sum_list_update_nat [OF assms, of "\<lambda>p. table_refs f (pagetable p)"
          "(procs s ! ptbr s)\<lparr>pagetable := pt\<rparr>"]
  by (simp add: refs_def set_ptbr_table_def ptbr_table_def)

lemma refs_upd [simp]:
  "refs (s\<lparr>mapcounts := mc\<rparr>) f = refs s f"
  "refs (s\<lparr>tlb := t\<rparr>) f = refs s f"
  "refs (s\<lparr>index := k\<rparr>) f = refs s f"
  by (simp_all add: refs_def)

lemma refs_store:
  assumes p: "ptbr s < length (procs s)" and i: "i < length (ptbr_table s)"
    and d: "slot_refs f (ptbr_table s ! i) = dir_refs f d" and j: "j < length d"
  shows "refs (set_ptbr_table s ((ptbr_table s)[i := Ptr (d[j := q])])) f
           + (if pte.valid (d ! j) \<and> pfn (d ! j) = f then 1 else 0)
         = refs s f + (if pte.valid q \<and> pfn q = f then 1 else 0)"
proof -
  note a = refs_set_ptbr_table [OF p, of "(ptbr_table s)[i := Ptr (d[j := q])]" f]
  note b = table_refs_update [OF i, of f "Ptr (d[j := q])"]
  note c = dir_refs_update [OF j, of f q]
  have e: "slot_refs f (Ptr (d[j := q])) = dir_refs f (d[j := q])" by (simp add: slot_refs_def)
  from a b c d e show ?thesis by linarith
qed

subsection \<open>Well-formedness is preserved\<close>

lemma wf_zero_directory [simp]: "wf_directory cfg (zero_directory cfg)"
  by (simp add: wf_directory_def zero_directory_def zero_pte_def)

lemma wf_directory_update:
  assumes "wf_directory cfg d" "pte.valid q \<longrightarrow> pfn q < NR_PAGEFRAMES cfg"
  shows "wf_directory cfg (d[j := q])"
proof -
  have "set (d[j := q]) \<subseteq> insert q (set d)" by (rule set_update_subset_insert)
  with assms show ?thesis by (auto simp: wf_directory_def)
qed

lemma wf_table_update:
  assumes "wf_table cfg pt" "wf_directory cfg d"
  shows "wf_table cfg (pt[i := Ptr d])"
proof -
  have "set (pt[i := Ptr d]) \<subseteq> insert (Ptr d) (set pt)" by (rule set_update_subset_insert)
  with assms show ?thesis by (auto simp: wf_table_def)
qed

lemma invalidate_loop_length [simp]: "length (invalidate_loop t v is) = length t"
  by (induction "is") auto

lemma wf_state_store:
  assumes wf: "wf_state cfg s" and t: "length t = tlb_size cfg"
    and mc: "length mc = NR_PAGEFRAMES cfg" and pt: "wf_table cfg pt"
  shows "wf_state cfg (set_ptbr_table (s\<lparr>tlb := t, mapcounts := mc\<rparr>) pt)"
proof -
  let ?q = "(procs s ! ptbr s)\<lparr>pagetable := pt\<rparr>"
  have "set ((procs s)[ptbr s := ?q]) \<subseteq> insert ?q (set (procs s))"
    by (rule set_update_subset_insert)
  with assms show ?thesis
    by (auto simp: wf_state_def set_ptbr_table_def)
qed

lemma wf_share_table: "wf_table cfg pt \<Longrightarrow> wf_table cfg (share_table pt)"
  by (auto simp: wf_table_def share_table_def wf_directory_def share_def map_ptr_def
           split: dir_ptr.splits)

lemma wf_child_table: "wf_table cfg pt \<Longrightarrow> wf_table cfg (child_table pt)"
  by (auto simp: wf_table_def child_table_def wf_directory_def inherit_def zero_pte_def map_ptr_def
           split: dir_ptr.splits)

lemma refcount_invD:
  "refcount_inv cfg s \<Longrightarrow> f < NR_PAGEFRAMES cfg \<Longrightarrow> unat (mapcounts s ! f) = refs s f"
  by (simp add: refcount_inv_def)

subsection \<open>The operations preserve the reference counts\<close>

lemma insert_tlb_preserves:
  assumes wf: "wf_state cfg s" and inv: "refcount_inv cfg s"
    and ev: "insert_tlb cfg s v f = Inr s'"
  shows "wf_state cfg s' \<and> refcount_inv cfg s'"
proof -
  from ev have s': "s' = s\<lparr>tlb := (tlb s)[index s := \<lparr>tlb_entry.valid = True, vpn = v, pfn = f\<rparr>],
                          index := index s + 1\<rparr>"
    by (auto simp: insert_tlb_def Let_def split: if_splits)
  have "wf_state cfg s'" using wf unfolding s' by (simp add: wf_state_def)
  moreover have "refcount_inv cfg s'" using inv unfolding s' by (simp add: refcount_inv_def refs_def)
  ultimately show ?thesis ..
qed

lemma alloc_page_preserves:
  assumes wf: "wf_state cfg s" and inv: "refcount_inv cfg s" and zf: "zero_filled al"
    and un: "\<not> mapped cfg s v" and ev: "alloc_page cfg al s v rw = Inr (s', r)"
  shows "wf_state cfg s' \<and> refcount_inv cfg s'"
proof (cases "unat v div NR_PTES_PER_PAGE cfg < NR_PTES_PER_PAGE cfg")
  case False
  from ev have pos: "0 < NR_PTES_PER_PAGE cfg"
    using alloc_page_no_divisor [of cfg al s v rw] by (cases "NR_PTES_PER_PAGE cfg = 0") simp_all
  have "s' = s"
  proof (cases "pd_index_of cfg v < 0")
    case True
    with ev pos show ?thesis by (simp add: alloc_page_def Let_def split: option.splits)
  next
    case nn: False
    then have "pd_index_of cfg v = int (unat v div NR_PTES_PER_PAGE cfg)"
      by (intro pd_index_nonneg) simp
    with False have "int (NR_PTES_PER_PAGE cfg) \<le> pd_index_of cfg v" by simp
    from alloc_page_bad_index [OF pos this] ev show ?thesis by simp
  qed
  with wf inv show ?thesis by simp
next
  case pd: True
  let ?N = "NR_PTES_PER_PAGE cfg"
  let ?i = "unat v div ?N" and ?j = "unat v mod ?N"
  note t = wf_state_ptbr_table [OF wf]
  note nw = wf_table_slot [OF t(2) pd]
  from wf have mcl: "length (mapcounts s) = NR_PAGEFRAMES cfg"
    and tl: "length (tlb s) = tlb_size cfg" by (simp_all add: wf_state_def)
  from ev pd pd_index_in_range [OF pd] obtain g
    where g: "find_free (mapcounts s) [0..<NR_PAGEFRAMES cfg] = Some g"
    by (cases "find_free (mapcounts s) [0..<NR_PAGEFRAMES cfg]") (auto simp: alloc_page_def Let_def)
  note low = find_free_upt [OF g]
  define d where "d = target_directory cfg al s ?i"
  define s1 where "s1 = s\<lparr>mapcounts := (mapcounts s)[g := mapcounts s ! g + 1]\<rparr>"
  have s': "s' = set_ptbr_table s1 ((ptbr_table s)[?i := Ptr (d[?j := new_pte cfg rw g])])"
    using ev unfolding alloc_page_found [OF pd g nw] s1_def d_def by auto
  have dz: "d = (case ptbr_table s ! ?i of Ptr d0 \<Rightarrow> d0 | _ \<Rightarrow> zero_directory cfg)"
    by (simp add: d_def target_directory_def fresh_directory_zero [OF zf] cong: dir_ptr.case_cong)
  have wd: "wf_directory cfg d"
    using wf_table_dir(1) [OF t(2) pd] by (simp add: dz split: dir_ptr.split)
  then have dl: "length d = ?N" by (simp add: wf_directory_def)
  have j: "?j < length d" using pd dl by simp
  have old: "\<not> pte.valid (d ! ?j)"
  proof (cases "ptbr_table s ! ?i")
    case (Ptr d0)
    with un pd show ?thesis by (simp add: dz mapped_def pte_at_def)
  qed (use pd in \<open>simp_all add: dz zero_directory_def zero_pte_def\<close>)
  have sl: "\<And>f. slot_refs f (ptbr_table s ! ?i) = dir_refs f d"
    by (simp add: dz slot_refs_def split: dir_ptr.split)
  have p1: "ptbr s1 < length (procs s1)" "ptbr_table s1 = ptbr_table s"
    using t(1) by (simp_all add: s1_def ptbr_table_def)
  have i1: "?i < length (ptbr_table s1)" using pd t(3) p1 by simp
  have r: "refs s' f = refs s f + (if g = f then 1 else 0)" for f
    using refs_store [where f = f and q = "new_pte cfg rw g", OF p1(1) i1 _ j] sl old p1(2)
    unfolding s' by (simp add: new_pte_def s1_def)
  have wf': "wf_state cfg s'"
  proof -
    have "wf_table cfg ((ptbr_table s)[?i := Ptr (d[?j := new_pte cfg rw g])])"
      using low by (intro wf_table_update wf_directory_update t(2) wd) (simp add: new_pte_def)
    from wf_state_store [OF wf tl _ this, of "(mapcounts s)[g := mapcounts s ! g + 1]"] mcl
    show ?thesis unfolding s' s1_def by simp
  qed
  have "unat (mapcounts s' ! f) = refs s' f" if f: "f < NR_PAGEFRAMES cfg" for f
  proof (cases "f = g")
    case True
    from refcount_invD [OF inv f] low True have "refs s f = 0" by simp
    with True low mcl r [of f] show ?thesis by (simp add: s' s1_def)
  next
    case False
    with refcount_invD [OF inv f] r [of f] show ?thesis by (simp add: s' s1_def)
  qed
  with wf' show ?thesis by (simp add: refcount_inv_def)
qed

lemma free_page_preserves:
  assumes wf: "wf_state cfg s" and inv: "refcount_inv cfg s"
    and m: "mapped cfg s v" and ev: "free_page cfg s v = Inr s'"
  shows "wf_state cfg s' \<and> refcount_inv cfg s' \<and> \<not> mapped cfg s' v"
proof -
  let ?N = "NR_PTES_PER_PAGE cfg"
  let ?i = "unat v div ?N" and ?j = "unat v mod ?N"
  from m obtain d where pd: "?i < ?N" and d: "ptbr_table s ! ?i = Ptr d"
    and va: "pte.valid (d ! ?j)"
    by (auto simp: mapped_def pte_at_def split: option.splits if_splits dir_ptr.splits)
  note t = wf_state_ptbr_table [OF wf]
  note wd = wf_table_dir [OF t(2) pd d]
  from wf have mcl: "length (mapcounts s) = NR_PAGEFRAMES cfg"
    and tl: "length (tlb s) = tlb_size cfg" by (simp_all add: wf_state_def)
  have j: "?j < length d" using pd wd(2) by simp
  let ?g = "pfn (d ! ?j)"
  have g: "?g < NR_PAGEFRAMES cfg" using wf_directory_pfn [OF wd(1) j va] .
  define s1 where "s1 = s\<lparr>tlb := invalidate_loop (tlb s) v [0..<NR_TLB_ENTRIES cfg],
               mapcounts := (mapcounts s)[?g := mapcounts s ! ?g - 1]\<rparr>"
  have s': "s' = set_ptbr_table s1 ((ptbr_table s)[?i := Ptr (d[?j := freed_pte (d ! ?j)])])"
    using ev unfolding free_page_found [OF pd d wd(2) g t(1)] s1_def by simp
  have p1: "ptbr s1 < length (procs s1)" "ptbr_table s1 = ptbr_table s"
    using t(1) by (simp_all add: s1_def ptbr_table_def)
  have i1: "?i < length (ptbr_table s1)" using pd t(3) p1 by simp
  have sl: "\<And>f. slot_refs f (ptbr_table s1 ! ?i) = dir_refs f d"
    using d p1 by (simp add: slot_refs_def)
  have r: "refs s' f + (if ?g = f then 1 else 0) = refs s f" for f
    using refs_store [where f = f and q = "freed_pte (d ! ?j)", OF p1(1) i1 sl j] va p1(2)
    unfolding s' by (simp add: freed_pte_def s1_def)
  have wf': "wf_state cfg s'"
  proof -
    have "wf_table cfg ((ptbr_table s)[?i := Ptr (d[?j := freed_pte (d ! ?j)])])"
      by (intro wf_table_update wf_directory_update t(2) wd(1)) (simp add: freed_pte_def)
    from wf_state_store [OF wf _ _ this, of "invalidate_loop (tlb s) v [0..<NR_TLB_ENTRIES cfg]"
        "(mapcounts s)[?g := mapcounts s ! ?g - 1]"] mcl tl
    show ?thesis unfolding s' s1_def by simp
  qed
  have "unat (mapcounts s' ! f) = refs s' f" if f: "f < NR_PAGEFRAMES cfg" for f
  proof (cases "f = ?g")
    case True
    from refcount_invD [OF inv f] r [of f] True have u: "unat (mapcounts s ! f) = refs s' f + 1"
      by simp
    then have "mapcounts s ! f \<noteq> 0" by auto
    then have "unat (mapcounts s ! f - 1) = unat (mapcounts s ! f) - 1" by (rule unat_minus_one)
    with u True g mcl show ?thesis by (simp add: s' s1_def)
  next
    case False
    with refcount_invD [OF inv f] r [of f] show ?thesis by (simp add: s' s1_def)
  qed
  moreover have "\<not> mapped cfg s' v"
    using pd t(1,3) wd(2) j unfolding s' by (simp add: mapped_def pte_at_def s1_def freed_pte_def)
  ultimately show ?thesis using wf' by (simp add: refcount_inv_def)
qed

lemma handle_page_fault_preserves:
  assumes wf: "wf_state cfg s" and inv: "refcount_inv cfg s" and zf: "zero_filled al"
    and m: "mapped cfg s v" and ev: "handle_page_fault cfg al s v rw = Inr (s', r)"
  shows "wf_state cfg s' \<and> refcount_inv cfg s'"
proof -
  from m obtain d where pd: "unat v div NR_PTES_PER_PAGE cfg < NR_PTES_PER_PAGE cfg"
    and d: "ptbr_table s ! (unat v div NR_PTES_PER_PAGE cfg) = Ptr d"
    by (auto simp: mapped_def pte_at_def split: option.splits if_splits dir_ptr.splits)
  from ev have "s' = s \<or> free_then_alloc cfg al s v rw = Inr (s', r)"
    unfolding handle_page_fault_found [OF pd d] by (auto split: if_splits)
  then show ?thesis
  proof
    assume "s' = s"
    with wf inv show ?thesis by simp
  next
    assume fa: "free_then_alloc cfg al s v rw = Inr (s', r)"
    then obtain s1 where fr: "free_page cfg s v = Inr s1"
      by (cases "free_page cfg s v") (auto simp: free_then_alloc_def)
    with fa obtain r1 where al: "alloc_page cfg al s1 v rw = Inr (s', r1)"
      by (cases "alloc_page cfg al s1 v rw") (auto simp: free_then_alloc_def)
    from free_page_preserves [OF wf inv m fr] have
      "wf_state cfg s1" "refcount_inv cfg s1" "\<not> mapped cfg s1 v" by simp_all
    from alloc_page_preserves [OF this(1,2) zf this(3) al] show ?thesis .
  qed
qed

lemma unat_add_of_nat:
  assumes "unat (w :: 32 word) + k < 2 ^ 32"
  shows "unat (w + of_nat k) = unat w + k"
proof -
  from assms have k: "k < 2 ^ 32" by simp
  then have "unat (of_nat k :: 32 word) = k" by (simp add: unat_of_nat)
  with assms show ?thesis using unat_add_lem [of w "of_nat k"] by simp
qed

lemma switch_process_preserves:
  assumes wf: "wf_state cfg s" and inv: "refcount_inv cfg s" and zf: "zero_filled al"
    and ad: "admissible cfg s (Switch n)" and ev: "switch_process cfg al s n = Inr s'"
  shows "wf_state cfg s' \<and> refcount_inv cfg s'"
proof (cases "find_pid (procs s) (processes s) n")
  case (Some pos)
  from find_pid_Some [OF Some] have pos: "pos \<in> set (processes s)" by simp
  have s': "s' = s\<lparr>processes := remove1 pos (processes s) @ [current s], current := pos, ptbr := pos,
            tlb := flush_loop (tlb s) [0..<NR_TLB_ENTRIES cfg]\<rparr>"
    using ev unfolding switch_process_found [OF Some] by simp
  have "wf_state cfg s'"
    using wf pos unfolding s' by (auto simp: wf_state_def dest: notin_set_remove1)
  moreover have "refcount_inv cfg s'"
    using inv unfolding s' by (simp add: refcount_inv_def refs_def)
  ultimately show ?thesis ..
next
  case None
  let ?prev = "pagetable (procs s ! current s)"
  from wf have cur: "current s < length (procs s)" and wt: "wf_table cfg ?prev"
    and tl: "length (tlb s) = tlb_size cfg" and nt: "NR_TLB_ENTRIES cfg \<le> tlb_size cfg"
    and q: "\<forall>a \<in> set (processes s). a < length (procs s)"
    and ps: "\<forall>p \<in> set (procs s). wf_table cfg (pagetable p)"
    by (auto simp: wf_state_def)
  let ?par = "(procs s ! current s)\<lparr>pagetable := share_table ?prev\<rparr>"
  let ?chi = "\<lparr>pid = n, pagetable = child_table ?prev\<rparr>"
  from switch_process_fork [OF None wf zf] ev obtain mc' where
    s': "s' = s\<lparr>procs := (procs s)[current s := ?par] @ [?chi],
                  processes := processes s @ [current s],
                  current := length (procs s),
                  ptbr := length (procs s),
                  mapcounts := mc',
                  tlb := flush_loop (tlb s) [0..<NR_TLB_ENTRIES cfg]\<rparr>"
    and ml: "length mc' = NR_PAGEFRAMES cfg"
    and mc: "\<forall>f < NR_PAGEFRAMES cfg. mc' ! f = mapcounts s ! f + of_nat (table_refs f ?prev)"
    by auto
  have sub: "set ((procs s)[current s := ?par]) \<subseteq> insert ?par (set (procs s))"
    by (rule set_update_subset_insert)
  have wf': "wf_state cfg s'"
    unfolding s' wf_state_def using tl nt ml cur q ps sub wf_share_table [OF wt] wf_child_table [OF wt]
    by (auto simp: less_Suc_eq)
  have r: "refs s' f = refs s f + table_refs f ?prev" for f
    using sum_list_update_nat [OF cur, of "\<lambda>p. table_refs f (pagetable p)" ?par]
    unfolding s' by (simp add: refs_def)
  have "unat (mapcounts s' ! f) = refs s' f" if f: "f < NR_PAGEFRAMES cfg" for f
  proof -
    from ad None f have "int (refs s f + table_refs f ?prev) < 2 ^ 32" by simp
    then have "refs s f + table_refs f ?prev < 2 ^ 32" by simp
    with refcount_invD [OF inv f] have "unat (mapcounts s ! f) + table_refs f ?prev < 2 ^ 32" by simp
    from unat_add_of_nat [OF this] mc f refcount_invD [OF inv f] r [of f]
    show ?thesis by (simp add: s')
  qed
  with wf' show ?thesis by (simp add: refcount_inv_def)
qed

lemma step_preserves:
  assumes "wf_state cfg s" "refcount_inv cfg s" "zero_filled al"
    and "admissible cfg s x" "step cfg al s x = Inr s'"
  shows "wf_state cfg s' \<and> refcount_inv cfg s'"
proof (cases x)
  case (Alloc v rw)
  with assms obtain r where "alloc_page cfg al s v rw = Inr (s', r)"
    by (cases "alloc_page cfg al s v rw") auto
  with assms Alloc show ?thesis by (auto dest: alloc_page_preserves)
next
  case (Free v)
  with assms show ?thesis by (auto dest: free_page_preserves)
next
  case (Fault v rw)
  with assms obtain r where "handle_page_fault cfg al s v rw = Inr (s', r)"
    by (cases "handle_page_fault cfg al s v rw") auto
  with assms Fault show ?thesis by (auto dest: handle_page_fault_preserves)
next
  case (Switch n)
  with assms show ?thesis using switch_process_preserves [of cfg s al n s'] by simp
next
  case (Insert v f)
  with assms show ?thesis using insert_tlb_preserves [of cfg s v f s'] by simp
qed

lemma run_preserves:
  "wf_state cfg s \<Longrightarrow> refcount_inv cfg s \<Longrightarrow> zero_filled al \<Longrightarrow> admissible_run cfg al s xs \<Longrightarrow>
   \<exists>s'. run cfg al s xs = Inr s' \<and> wf_state cfg s' \<and> refcount_inv cfg s'"
proof (induction xs arbitrary: s)
  case Nil
  then show ?case by simp
next
  case (Cons x xs)
  from Cons.prems(4) obtain s1 where st: "step cfg al s x = Inr s1"
    and ad: "admissible cfg s x" and rest: "admissible_run cfg al s1 xs"
    by (cases "step cfg al s x") auto
  from step_preserves [OF Cons.prems(1,2,3) ad st] have "wf_state cfg s1" "refcount_inv cfg s1"
    by simp_all
  from Cons.IH [OF this Cons.prems(3) rest] st show ?case by simp
qed

lemma refcount_inv_init: "refcount_inv cfg (init_state cfg)"
  by (simp add: refcount_inv_def init_state_def refs_def table_refs_def zero_pagetable_def
        slot_refs_def)

lemma wf_init_state:
  "NR_TLB_ENTRIES cfg \<le> tlb_size cfg \<Longrightarrow> wf_state cfg (init_state cfg)"
  by (simp add: wf_state_def init_state_def wf_table_def zero_pagetable_def)

subsection \<open>The reference-count invariant\<close>

text \<open>
  Claim C4 says that after every sequence of \<^verbatim>\<open>alloc_page\<close>, \<^verbatim>\<open>free_page\<close>,
  \<^verbatim>\<open>handle_page_fault\<close> and \<^verbatim>\<open>switch_process\<close> from the initial state the
  count of every frame equals the number of valid entries that name it.
  \<^verbatim>\<open>alloc_page\<close> does not look at the entry it overwrites: allocating page 0
  twice leaves frame 0 with count 1 and no entry that names it.  And the
  fork counts only the entries it copies: when the directory block that
  \<^verbatim>\<open>malloc\<close> hands to the child holds an old valid entry for frame 2, the
  child keeps that entry and the count of frame 2 stays 0.
\<close>

theorem refcount_invariant_broken:
  "run cfg2 zeroed (init_state cfg2) [Alloc 0 2, Alloc 0 2]
     = Inr (mk_state [mk_proc 0 [Ptr [mk_pte True True 1 1, zero_pte], Null]] 0 [] no_tlb 0 [1, 1, 0])
   \<and> mapcounts (mk_state [mk_proc 0 [Ptr [mk_pte True True 1 1, zero_pte], Null]] 0 [] no_tlb 0
                  [1, 1, 0]) ! 0 = 1
   \<and> refs (mk_state [mk_proc 0 [Ptr [mk_pte True True 1 1, zero_pte], Null]] 0 [] no_tlb 0
             [1, 1, 0]) 0 = 0
   \<and> refcount_inv cfg2
        (mk_state [mk_proc 0 [Ptr [mk_pte True True 1 1, zero_pte], Null]] 0 [] no_tlb 0 [1, 1, 0])
      = False
   \<and> admissible_run cfg2 stale_directory (init_state cfg2) [Alloc 0 2, Switch 1]
   \<and> run cfg2 stale_directory (init_state cfg2) [Alloc 0 2, Switch 1]
     = Inr (mk_state [mk_proc 0 [Ptr [mk_pte True False 0 1, zero_pte], Null],
                      mk_proc 1 [Ptr [mk_pte True False 0 1, mk_pte True True 2 1], Null]]
              1 [0] no_tlb 0 [2, 0, 0])
   \<and> mapcounts (mk_state [mk_proc 0 [Ptr [mk_pte True False 0 1, zero_pte], Null],
                          mk_proc 1 [Ptr [mk_pte True False 0 1, mk_pte True True 2 1], Null]]
                  1 [0] no_tlb 0 [2, 0, 0]) ! 2 = 0
   \<and> refs (mk_state [mk_proc 0 [Ptr [mk_pte True False 0 1, zero_pte], Null],
                     mk_proc 1 [Ptr [mk_pte True False 0 1, mk_pte True True 2 1], Null]]
             1 [0] no_tlb 0 [2, 0, 0]) 2 = 1
   \<and> refcount_inv cfg2
        (mk_state [mk_proc 0 [Ptr [mk_pte True False 0 1, zero_pte], Null],
                   mk_proc 1 [Ptr [mk_pte True False 0 1, mk_pte True True 2 1], Null]]
           1 [0] no_tlb 0 [2, 0, 0])
      = False"
  by code_simp

text \<open>
  Claim C4, amended: the blocks that \<^verbatim>\<open>malloc\<close> returns are zero-filled, the
  loops over the cache stay inside the array (\<^verbatim>\<open>NR_TLB_ENTRIES\<close> is at most
  its declared size), and the run is admissible, that is, \<^verbatim>\<open>alloc_page\<close> is
  applied only to pages without a valid entry, \<^verbatim>\<open>free_page\<close> and
  \<^verbatim>\<open>handle_page_fault\<close> only to pages with a valid entry, no operation
  faults, and a fork does not take a count beyond the range of
  \<^verbatim>\<open>unsigned int\<close>.  Such a run from the initial state ends in a state
  where, for every frame, the count equals the number of valid entries
  naming that frame in the page tables of all processes.
\<close>

theorem refcount_invariant_admissible:
  assumes "zero_filled al" and "NR_TLB_ENTRIES cfg \<le> tlb_size cfg"
    and "admissible_run cfg al (init_state cfg) xs"
  shows "\<exists>s. run cfg al (init_state cfg) xs = Inr s \<and>
           (\<forall>f < NR_PAGEFRAMES cfg. unat (mapcounts s ! f) = refs s f)"
proof -
  from run_preserves [OF wf_init_state [OF assms(2)] refcount_inv_init assms(1,3)]
  obtain s where "run cfg al (init_state cfg) xs = Inr s" "refcount_inv cfg s" by blast
  then show ?thesis by (auto simp: refcount_inv_def)
qed

text \<open>
  The amended claim C4 at a run with two allocations and their insertions
  into the cache, a fork, a copy-on-write fault in the child, the switch
  back, and a fault of the parent as sole owner.
\<close>

theorem refcount_invariant_admissible_witness:
  "zero_filled zeroed \<and> NR_TLB_ENTRIES cfg2 \<le> tlb_size cfg2 \<and>
   admissible_run cfg2 zeroed (init_state cfg2)
     [Alloc 0 2, Insert 0 0, Alloc 1 2, Insert 1 1, Switch 1, Free 0, Fault 1 2, Switch 0,
      Free 0, Fault 1 2] \<and>
   (\<exists>s. run cfg2 zeroed (init_state cfg2)
           [Alloc 0 2, Insert 0 0, Alloc 1 2, Insert 1 1, Switch 1, Free 0, Fault 1 2, Switch 0,
            Free 0, Fault 1 2] = Inr s \<and>
        (\<forall>f < NR_PAGEFRAMES cfg2. unat (mapcounts s ! f) = refs s f))"
proof -
  have h1: "NR_TLB_ENTRIES cfg2 \<le> tlb_size cfg2" by code_simp
  have h2: "admissible_run cfg2 zeroed (init_state cfg2)
     [Alloc 0 2, Insert 0 0, Alloc 1 2, Insert 1 1, Switch 1, Free 0, Fault 1 2, Switch 0,
      Free 0, Fault 1 2]"
    by code_simp
  from refcount_invariant_admissible [OF zero_filled_zeroed h1 h2] zero_filled_zeroed h1 h2
  show ?thesis by blast
qed

end
